theory Spec2Isabelle
  imports Main "HOL-Library.Word"
begin

unbundle bit_operations_syntax

section \<open>cdok.h: limits, positions, value sets\<close>

text \<open>
  Conventions of the embedding.
  \<^item> C \<open>int\<close> is modelled by \<open>int\<close>. Signed overflow is undefined in C and the compiled
    code wraps around: the products of cell values, which can leave the 32-bit range,
    are wrapped with \<open>c_int\<close>; sums, differences and the other products stay in range
    for targets of a few digits and cell values of at most 16.
  \<^item> Array indices, sizes, group numbers and the \<open>uint8_t\<close> cell values are \<open>nat\<close>;
    an array is a total function from its index.
  \<^item> \<open>cdok_set_t\<close> (\<open>uint16_t\<close>) is \<open>16 word\<close>. The \<open>CDOK_SET_*\<close> macros compute in
    C \<open>int\<close>; the conversion to \<open>cdok_set_t\<close> at a return or an assignment is
    \<open>word_of_int\<close>.
  \<^item> A position result of \<open>-1\<close> ("no cell") is \<open>None\<close>.
\<close>

definition CDOK_SIZE :: nat where "CDOK_SIZE = 16"
definition CDOK_GROUPS :: nat where "CDOK_GROUPS = 52"
definition CDOK_CELLS :: nat where "CDOK_CELLS = 256"
definition CDOK_GROUP_SIZE :: nat where "CDOK_GROUP_SIZE = 8"
definition CDOK_GROUP_NONE :: nat where "CDOK_GROUP_NONE = 255"

type_synonym cdok_pos_t = nat

definition CDOK_POS :: "nat \<Rightarrow> nat \<Rightarrow> cdok_pos_t" where
  "CDOK_POS x y = (push_bit 4 y) OR x"

definition CDOK_POS_X :: "cdok_pos_t \<Rightarrow> nat" where
  "CDOK_POS_X c = c AND 15"

definition CDOK_POS_Y :: "cdok_pos_t \<Rightarrow> nat" where
  "CDOK_POS_Y c = drop_bit 4 c"

datatype cdok_gtype_t =
    CDOK_SUM | CDOK_DIFFERENCE | CDOK_PRODUCT | CDOK_RATIO
  | CDOK_TYPE_ZERO \<comment> \<open>the value 0 that \<open>memset\<close> leaves; no \<open>case\<close> of a \<open>switch\<close> matches it\<close>

record cdok_group =
  g_type :: cdok_gtype_t
  g_target :: int
  g_size :: nat
  g_members :: "nat \<Rightarrow> cdok_pos_t"

record cdok_puzzle =
  p_size :: nat
  p_groups :: "nat \<Rightarrow> cdok_group"
  p_values :: "cdok_pos_t \<Rightarrow> nat"
  p_group_map :: "cdok_pos_t \<Rightarrow> nat"

type_synonym cdok_set_t = "16 word"

text \<open>
  \<open>a << k\<close> on a C \<open>int\<close>. C defines the shift for \<open>0 \<le> k < 32\<close> only; the compiled code
  takes the count modulo 32, and so does the model. The result is not cut to 32 bits
  here: every use converts it to \<open>cdok_set_t\<close>, which keeps the low 16 bits, or tests
  it against a \<open>cdok_set_t\<close>.
\<close>

definition c_shl :: "int \<Rightarrow> int \<Rightarrow> int" where
  "c_shl a k = push_bit (nat (k mod 32)) a"

definition CDOK_SET_SINGLE :: "int \<Rightarrow> int" where
  "CDOK_SET_SINGLE c = c_shl 1 (c - 1)"

definition CDOK_SET_ONES :: "int \<Rightarrow> int" where
  "CDOK_SET_ONES s = c_shl 1 s - 1"

definition CDOK_SET_RANGE :: "int \<Rightarrow> int \<Rightarrow> int" where
  "CDOK_SET_RANGE lo hi = c_shl (CDOK_SET_ONES (hi - lo + 1)) (lo - 1)"

text \<open>Reading a value set: bit \<open>v - 1\<close> stands for the value \<open>v\<close>.\<close>

definition set_has :: "cdok_set_t \<Rightarrow> int \<Rightarrow> bool" where
  "set_has s v = (1 \<le> v \<and> bit s (nat (v - 1)))"

definition set_values :: "cdok_set_t \<Rightarrow> int set" where
  "set_values s = {v. set_has s v}"

text \<open>The \<open>int\<close> that the compiled code holds after an operation whose exact result is
  \<open>x\<close>: the 32 low bits of \<open>x\<close>, read as two's complement.\<close>

definition c_int :: "int \<Rightarrow> int" where
  "c_int x = sint (word_of_int x :: 32 word)"

text \<open>C's \<open>/\<close> and \<open>%\<close> truncate towards zero.\<close>

definition c_div :: "int \<Rightarrow> int \<Rightarrow> int" where
  "c_div a b = sgn a * sgn b * (\<bar>a\<bar> div \<bar>b\<bar>)"

definition c_mod :: "int \<Rightarrow> int \<Rightarrow> int" where
  "c_mod a b = a - b * c_div a b"

section \<open>Solver: group analysis\<close>

definition addends_for :: "int \<Rightarrow> int \<Rightarrow> int \<Rightarrow> cdok_set_t" where
  "addends_for target n mx =
     (if target < 1 \<or> n < 1 then 0
      else if n = 1 then
        (if target \<ge> 1 \<and> target \<le> mx then word_of_int (CDOK_SET_SINGLE target) else 0)
      else
        let a_min = target - mx * (n - 1);
            a_min = (if a_min < 1 then 1 else a_min);
            a_max = target - (n - 1);
            a_max = (if a_max > mx then mx else a_max)
        in if a_min > a_max then 0 else word_of_int (CDOK_SET_RANGE a_min a_max))"

text \<open>The \<open>for\<close> loop of \<open>factors_for\<close>, from \<open>i\<close> on, with the set collected so far.\<close>

function factors_loop :: "int \<Rightarrow> int \<Rightarrow> int \<Rightarrow> cdok_set_t \<Rightarrow> cdok_set_t" where
  "factors_loop target mx i out =
     (if i * i < target \<and> i \<le> mx then
        factors_loop target mx (i + 1)
          (if c_mod target i = 0 then
             (let j = c_div target i;
                  out = out OR word_of_int (CDOK_SET_SINGLE i)
              in if j \<le> mx then out OR word_of_int (CDOK_SET_SINGLE j) else out)
           else out)
      else out)"
  by pat_completeness auto
termination
  by (relation "measure (\<lambda>(target, mx, i, out). nat (mx + 1 - i))") auto

declare factors_loop.simps [simp del]

definition factors_for :: "int \<Rightarrow> int \<Rightarrow> int \<Rightarrow> cdok_set_t" where
  "factors_for target n mx =
     (if target < 1 \<or> n < 1 then 0
      else if n = 1 then
        (if target \<ge> 1 \<or> target \<le> mx then word_of_int (CDOK_SET_SINGLE target) else 0)
      else factors_loop target mx 1 0)"

text \<open>
  The partially filled group is passed as the array \<open>members\<close> of its known values and
  their number \<open>nm\<close>; the array is a list here, read at the indices below \<open>nm\<close>.
\<close>

definition sum_candidates :: "int \<Rightarrow> int \<Rightarrow> nat list \<Rightarrow> nat \<Rightarrow> int \<Rightarrow> cdok_set_t" where
  "sum_candidates target sz members nm mx =
     (let partial_sum = fold (\<lambda>i s. s + int (members ! i)) [0..<nm] 0
      in addends_for (target - partial_sum) (sz - int nm) mx)"

text \<open>The first loop of \<open>difference_candidates\<close> and \<open>ratio_candidates\<close> keeps the
  largest known value, starting from \<open>-1\<close>.\<close>

definition max_member :: "nat list \<Rightarrow> nat \<Rightarrow> int" where
  "max_member members nm =
     fold (\<lambda>i max_m. if int (members ! i) > max_m then int (members ! i) else max_m) [0..<nm] (- 1)"

definition difference_candidates :: "int \<Rightarrow> int \<Rightarrow> nat list \<Rightarrow> nat \<Rightarrow> int \<Rightarrow> cdok_set_t" where
  "difference_candidates target sz members nm mx =
     (let max_m = max_member members nm;
          partial_sum = fold (\<lambda>i s. s + int (members ! i)) [0..<nm] 0;
          out = (if nm \<ge> 1
                 then addends_for (max_m * 2 - partial_sum - target) (sz - int nm) mx
                 else 0)
      in if int nm + 1 = sz then
           (let sum = target + partial_sum
            in if sum \<le> mx then out OR word_of_int (CDOK_SET_SINGLE sum) else out)
         else
           (let min_sum = target + partial_sum + (sz - int nm - 1)
            in fold (\<lambda>i out.
                   let terms_for_sum = addends_for (i - partial_sum - target) (sz - int nm - 1) mx
                   in if terms_for_sum \<noteq> 0
                      then out OR terms_for_sum OR word_of_int (CDOK_SET_SINGLE i)
                      else out)
                 [min_sum..mx] out))"

definition product_candidates :: "int \<Rightarrow> int \<Rightarrow> nat list \<Rightarrow> nat \<Rightarrow> int \<Rightarrow> cdok_set_t" where
  "product_candidates target sz members nm mx =
     (let partial_product = fold (\<lambda>i p. c_int (p * int (members ! i))) [0..<nm] 1
      in if c_mod target partial_product \<noteq> 0 then 0
         else factors_for (c_div target partial_product) (sz - int nm) mx)"

text \<open>
  The second loop of \<open>ratio_candidates\<close>, \<open>for (i = 1; i * min_product <= max; i++)\<close>.
  It ends when \<open>min_product\<close> is positive, as it is for a ratio group with a positive
  target (the parser refuses a zero target, the generator derives positive ones). For
  \<open>min_product \<le> 0\<close> the C loop runs on until \<open>i * min_product\<close> overflows (for 0, for
  ever); the model stops at once there.
\<close>

function ratio_loop :: "int \<Rightarrow> int \<Rightarrow> int \<Rightarrow> int \<Rightarrow> cdok_set_t \<Rightarrow> cdok_set_t" where
  "ratio_loop min_product n mx i out =
     (if 0 < min_product \<and> i * min_product \<le> mx then
        ratio_loop min_product n mx (i + 1)
          (let terms_for_product = factors_for i n mx
           in if terms_for_product \<noteq> 0
              then out OR terms_for_product OR word_of_int (CDOK_SET_SINGLE (i * min_product))
              else out)
      else out)"
  by pat_completeness auto
termination
  by (relation "measure (\<lambda>(min_product, n, mx, i, out). nat (mx + 1 - i * min_product))")
     (auto simp: algebra_simps)

declare ratio_loop.simps [simp del]

text \<open>Division by zero (a ratio group of target 0) is undefined in C; \<open>c_div\<close> and
  \<open>c_mod\<close> take HOL's values there.\<close>

definition ratio_candidates :: "int \<Rightarrow> int \<Rightarrow> nat list \<Rightarrow> nat \<Rightarrow> int \<Rightarrow> cdok_set_t" where
  "ratio_candidates target sz members nm mx =
     (let partial_product = fold (\<lambda>i p. c_int (p * int (members ! i))) [0..<nm] 1;
          max_m = max_member members nm;
          out = (if nm \<ge> 1 \<and> c_mod (max_m * max_m) (c_int (partial_product * target)) = 0
                 then factors_for (c_div (max_m * max_m) (c_int (partial_product * target)))
                        (sz - int nm) mx
                 else 0)
      in if int nm + 1 = sz then
           (let product = c_int (partial_product * target)
            in if product \<le> mx then out OR word_of_int (CDOK_SET_SINGLE product) else out)
         else
           (let min_product = c_int (partial_product * target)
            in ratio_loop min_product (sz - int nm - 1) mx 1 out))"

text \<open>The values of the filled cells of a group, in member order: the local array
  \<open>members\<close> of \<open>group_candidates\<close>, whose length is \<open>count\<close>.\<close>

definition known_members :: "cdok_group \<Rightarrow> (cdok_pos_t \<Rightarrow> nat) \<Rightarrow> nat list" where
  "known_members g vals =
     filter (\<lambda>v. v \<noteq> 0) (map (\<lambda>i. vals (g_members g i)) [0..<g_size g])"

definition group_candidates :: "cdok_group \<Rightarrow> (cdok_pos_t \<Rightarrow> nat) \<Rightarrow> int \<Rightarrow> cdok_set_t" where
  "group_candidates g vals mx =
     (let members = known_members g vals; count = length members
      in case g_type g of
           CDOK_SUM \<Rightarrow> sum_candidates (g_target g) (int (g_size g)) members count mx
         | CDOK_DIFFERENCE \<Rightarrow> difference_candidates (g_target g) (int (g_size g)) members count mx
         | CDOK_PRODUCT \<Rightarrow> product_candidates (g_target g) (int (g_size g)) members count mx
         | CDOK_RATIO \<Rightarrow> ratio_candidates (g_target g) (int (g_size g)) members count mx
         | CDOK_TYPE_ZERO \<Rightarrow> 0)"

section \<open>Solver: row and column analysis\<close>

text \<open>The first loop of \<open>build_rc_candidates\<close>: the sets of the values found in each row
  and in each column.\<close>

definition rc_used ::
  "(cdok_pos_t \<Rightarrow> nat) \<Rightarrow> (nat \<Rightarrow> cdok_set_t) \<times> (nat \<Rightarrow> cdok_set_t)" where
  "rc_used vals =
     fold (\<lambda>i (rows, cols).
            let v = vals i
            in if v \<noteq> 0 then
                 (let s = word_of_int (CDOK_SET_SINGLE (int v))
                  in (rows(CDOK_POS_Y i := rows (CDOK_POS_Y i) OR s),
                      cols(CDOK_POS_X i := cols (CDOK_POS_X i) OR s)))
               else (rows, cols))
          [0..<CDOK_CELLS] (\<lambda>_. 0, \<lambda>_. 0)"

text \<open>The array \<open>candidates\<close> is written at every index below \<open>CDOK_CELLS\<close>; the model
  gives the same expression at every index.\<close>

definition build_rc_candidates :: "(cdok_pos_t \<Rightarrow> nat) \<Rightarrow> int \<Rightarrow> (cdok_pos_t \<Rightarrow> cdok_set_t)" where
  "build_rc_candidates vals mx =
     (let (rows, cols) = rc_used vals
      in (\<lambda>i. word_of_int (CDOK_SET_ONES mx) XOR (rows (CDOK_POS_Y i) OR cols (CDOK_POS_X i))))"

function count_bits :: "cdok_set_t \<Rightarrow> int" where
  "count_bits s = (if s \<noteq> 0 then count_bits (s AND (s - 1)) + 1 else 0)"
  by pat_completeness auto
termination
proof (relation "measure unat")
  show "wf (measure unat)" by simp
next
  fix s :: cdok_set_t
  assume "s \<noteq> 0"
  have "unat (s AND (s - 1)) \<le> unat (s - 1)"
    using word_and_le1 [of s "s - 1"] by (simp add: word_le_nat_alt)
  also have "\<dots> < unat s"
    using \<open>s \<noteq> 0\<close> by (simp add: unat_minus_one unat_gt_0)
  finally show "(s AND (s - 1), s) \<in> measure unat" by simp
qed

declare count_bits.simps [simp del]

definition constrain_by_groups ::
  "cdok_puzzle \<Rightarrow> (cdok_pos_t \<Rightarrow> nat) \<Rightarrow> (cdok_pos_t \<Rightarrow> cdok_set_t) \<Rightarrow> (cdok_pos_t \<Rightarrow> cdok_set_t)" where
  "constrain_by_groups puz vals candidates =
     fold (\<lambda>i candidates.
            let g = p_groups puz i
            in if g_size g \<noteq> 0 then
                 (let c = group_candidates g vals (int (p_size puz))
                  in fold (\<lambda>j candidates.
                            candidates(g_members g j := candidates (g_members g j) AND c))
                       [0..<g_size g] candidates)
               else candidates)
          [0..<CDOK_GROUPS] candidates"

text \<open>The state of the scan of \<open>search_least_free\<close> is \<open>best\<close> (\<open>None\<close> for \<open>-1\<close>) and
  \<open>best_count\<close>; \<open>least_free_step\<close> is the body of the inner loop.\<close>

definition least_free_step ::
  "(cdok_pos_t \<Rightarrow> nat) \<Rightarrow> (cdok_pos_t \<Rightarrow> cdok_set_t) \<Rightarrow> nat \<Rightarrow> nat \<Rightarrow>
   cdok_pos_t option \<times> int \<Rightarrow> cdok_pos_t option \<times> int" where
  "least_free_step vals candidates y x st =
     (let c = CDOK_POS x y
      in if vals c = 0 then
           (let count = count_bits (candidates c)
            in if fst st = None \<or> count < snd st then (Some c, count) else st)
         else st)"

definition search_least_free ::
  "(cdok_pos_t \<Rightarrow> nat) \<Rightarrow> (cdok_pos_t \<Rightarrow> cdok_set_t) \<Rightarrow> nat \<Rightarrow> cdok_pos_t option" where
  "search_least_free vals candidates mx =
     fst (fold (\<lambda>y. fold (least_free_step vals candidates y) [0..<mx]) [0..<mx] (None, 0))"

section \<open>Solver\<close>

definition find_candidates ::
  "cdok_puzzle \<Rightarrow> (cdok_pos_t \<Rightarrow> nat) \<Rightarrow> (cdok_pos_t \<times> cdok_set_t) option" where
  "find_candidates puz vals =
     (let candidates = build_rc_candidates vals (int (p_size puz));
          candidates = constrain_by_groups puz vals candidates
      in case search_least_free vals candidates (p_size puz) of
           None \<Rightarrow> None
         | Some c \<Rightarrow> Some (c, candidates c))"

text \<open>
  \<open>ctx_solution\<close> is the caller's solution buffer: \<open>None\<close> for a null pointer, else what
  the buffer holds.
\<close>

record solver_context =
  ctx_puzzle :: cdok_puzzle
  ctx_solution :: "(cdok_pos_t \<Rightarrow> nat) option"
  ctx_values :: "cdok_pos_t \<Rightarrow> nat"
  ctx_count :: nat
  ctx_branch_diff :: int

text \<open>
  The \<open>for\<close> loop of \<open>solve_recurse\<close> over the values \<open>i\<close> still to try; \<open>recurse\<close> is the
  recursive call \<open>solve_recurse(ctx, diff)\<close>, which may not return (\<open>None\<close>).
\<close>

fun solve_values ::
  "(solver_context \<Rightarrow> solver_context option) \<Rightarrow> cdok_pos_t \<Rightarrow> cdok_set_t \<Rightarrow> nat list \<Rightarrow>
   solver_context \<Rightarrow> solver_context option" where
  "solve_values recurse cell candidates [] ctx = Some ctx"
| "solve_values recurse cell candidates (i # rest) ctx =
     (if uint candidates AND CDOK_SET_SINGLE (int i) = 0
      then solve_values recurse cell candidates rest ctx
      else
        case recurse (ctx\<lparr>ctx_values := (ctx_values ctx)(cell := i)\<rparr>) of
          None \<Rightarrow> None
        | Some ctx1 \<Rightarrow>
            let ctx2 = ctx1\<lparr>ctx_values := (ctx_values ctx1)(cell := 0)\<rparr>
            in if ctx_count ctx2 \<ge> 2 then Some ctx2
               else solve_values recurse cell candidates rest ctx2)"

text \<open>
  \<open>solve_recurse\<close> calls itself with the state its earlier calls left, so its recursion
  is bounded by fuel: the first argument is the depth still allowed, and \<open>None\<close> says
  that it was used up. \<open>cdok_solve\<close> starts with \<open>CDOK_CELLS + 1\<close>, which is enough for
  every puzzle of size at most \<open>CDOK_SIZE\<close> (lemma \<open>solve_recurse_refines\<close>).
\<close>

primrec solve_recurse :: "nat \<Rightarrow> solver_context \<Rightarrow> int \<Rightarrow> solver_context option" where
  "solve_recurse 0 ctx branch_diff = None"
| "solve_recurse (Suc fuel) ctx branch_diff =
     (case find_candidates (ctx_puzzle ctx) (ctx_values ctx) of
        None \<Rightarrow>
          Some ((if ctx_count ctx = 0
                 then ctx\<lparr>ctx_solution := map_option (\<lambda>_. ctx_values ctx) (ctx_solution ctx),
                          ctx_branch_diff := branch_diff\<rparr>
                 else ctx)
                \<lparr>ctx_count := ctx_count ctx + 1\<rparr>)
      | Some (cell, candidates) \<Rightarrow>
          if candidates = 0 then Some ctx
          else
            let diff = count_bits candidates - 1;
                diff = branch_diff + diff * diff
            in solve_values (\<lambda>c. solve_recurse fuel c diff) cell candidates
                 [1..<Suc (p_size (ctx_puzzle ctx))] ctx)"

text \<open>The loop \<open>while (m < puz->size * puz->size) m *= 10\<close>.\<close>

partial_function (option) scale_loop :: "int \<Rightarrow> int \<Rightarrow> int option" where
  "scale_loop m n = (if m < n then scale_loop (m * 10) n else Some m)"

declare scale_loop.simps [code]

definition count_empty :: "cdok_puzzle \<Rightarrow> int" where
  "count_empty puz =
     fold (\<lambda>y. fold (\<lambda>x e. if p_values puz (CDOK_POS x y) = 0 then e + 1 else e)
                 [0..<p_size puz])
       [0..<p_size puz] 0"

text \<open>
  The context \<open>cdok_solve\<close> sets up. The C code leaves \<open>ctx.branch_diff\<close> without a value;
  it is read only when \<open>ctx.count\<close> is not 0, after \<open>solve_recurse\<close> has stored to it.
\<close>

definition solver_init :: "cdok_puzzle \<Rightarrow> (cdok_pos_t \<Rightarrow> nat) option \<Rightarrow> solver_context" where
  "solver_init puz solution =
     \<lparr>ctx_puzzle = puz, ctx_solution = solution, ctx_values = p_values puz,
      ctx_count = 0, ctx_branch_diff = 0\<rparr>"

text \<open>
  \<open>cdok_solve puz solution diff\<close>: \<open>solution\<close> and \<open>diff\<close> are what the two output
  parameters point to before the call (\<open>None\<close> for a null pointer). The result is the
  returned \<open>int\<close> with what they point to after the call; \<open>None\<close> if the call does not
  return.
\<close>

definition cdok_solve ::
  "cdok_puzzle \<Rightarrow> (cdok_pos_t \<Rightarrow> nat) option \<Rightarrow> int option \<Rightarrow>
   (int \<times> (cdok_pos_t \<Rightarrow> nat) option \<times> int option) option" where
  "cdok_solve puz solution diff =
     (case solve_recurse (Suc CDOK_CELLS) (solver_init puz solution) 0 of
        None \<Rightarrow> None
      | Some ctx \<Rightarrow>
          if ctx_count ctx = 0 then Some (- 1, ctx_solution ctx, diff)
          else
            (let ret = (if ctx_count ctx > 1 then 1 else 0)
             in case diff of
                  None \<Rightarrow> Some (ret, ctx_solution ctx, None)
                | Some _ \<Rightarrow>
                    (case scale_loop 1 (int (p_size puz) * int (p_size puz)) of
                       None \<Rightarrow> None
                     | Some m \<Rightarrow>
                         Some (ret, ctx_solution ctx,
                               Some (ctx_branch_diff ctx * m + count_empty puz)))))"


section \<open>cdok.c: an empty puzzle, the flood fill\<close>

definition cdok_init_puzzle :: "nat \<Rightarrow> cdok_puzzle" where
  "cdok_init_puzzle sz =
     \<lparr>p_size = sz,
      p_groups = (\<lambda>i. \<lparr>g_type = CDOK_TYPE_ZERO, g_target = - 1, g_size = 0,
                         g_members = (\<lambda>j. 0)\<rparr>),
      p_values = (\<lambda>c. 0),
      p_group_map = (\<lambda>c. CDOK_GROUP_NONE)\<rparr>"

text \<open>The two \<open>while\<close> loops of \<open>cdok_flood_fill\<close>, which extend the run of \<open>src\<close> cells
  of row \<open>y\<close> to the left and to the right.\<close>

fun flood_start :: "(cdok_pos_t \<Rightarrow> nat) \<Rightarrow> nat \<Rightarrow> nat \<Rightarrow> nat \<Rightarrow> nat" where
  "flood_start m src y start_x =
     (if start_x > 0 \<and> m (CDOK_POS (start_x - 1) y) = src
      then flood_start m src y (start_x - 1) else start_x)"

function flood_end :: "(cdok_pos_t \<Rightarrow> nat) \<Rightarrow> nat \<Rightarrow> nat \<Rightarrow> nat \<Rightarrow> nat" where
  "flood_end m src y end_x =
     (if end_x + 1 < CDOK_SIZE \<and> m (CDOK_POS (end_x + 1) y) = src
      then flood_end m src y (end_x + 1) else end_x)"
  by pat_completeness auto
termination
  by (relation "measure (\<lambda>(m, src, y, end_x). CDOK_SIZE - end_x)") auto

declare flood_start.simps [simp del]
declare flood_end.simps [simp del]

text \<open>A \<open>for\<close> loop whose body may not return.\<close>

fun fold_option :: "('a \<Rightarrow> 'b \<Rightarrow> 'b option) \<Rightarrow> 'a list \<Rightarrow> 'b \<Rightarrow> 'b option" where
  "fold_option f [] s = Some s"
| "fold_option f (x # xs) s = (case f x s of None \<Rightarrow> None | Some s' \<Rightarrow> fold_option f xs s')"

text \<open>
  \<open>cdok_flood_fill\<close> calls itself on the map its earlier calls left, so its recursion is
  bounded by fuel, as that of \<open>solve_recurse\<close> is: \<open>None\<close> says that the depth allowed was
  used up. With \<open>src = CDOK_GROUP_NONE\<close> the C function never returns.
\<close>

primrec cdok_flood_fill ::
  "nat \<Rightarrow> (cdok_pos_t \<Rightarrow> nat) \<Rightarrow> nat \<Rightarrow> nat \<Rightarrow> nat \<Rightarrow> (cdok_pos_t \<Rightarrow> nat) option" where
  "cdok_flood_fill 0 m src x y = None"
| "cdok_flood_fill (Suc fuel) m src x y =
     (if m (CDOK_POS x y) \<noteq> src then Some m
      else
        let start_x = flood_start m src y x;
            end_x = flood_end m src y x;
            m = fold (\<lambda>i m. m(CDOK_POS i y := CDOK_GROUP_NONE)) [start_x..<Suc end_x] m
        in case (if y > 0
                 then fold_option (\<lambda>i m. cdok_flood_fill fuel m src i (y - 1))
                        [start_x..<Suc end_x] m
                 else Some m) of
             None \<Rightarrow> None
           | Some m \<Rightarrow>
               if y + 1 < CDOK_SIZE
               then fold_option (\<lambda>i m. cdok_flood_fill fuel m src i (y + 1))
                      [start_x..<Suc end_x] m
               else Some m)"

section \<open>Generator: random numbers\<close>

text \<open>
  The state of the C library's generator is the stream of the numbers that \<open>random()\<close>
  is still to return.
\<close>

type_synonym rng = "nat \<Rightarrow> nat"

definition c_random :: "rng \<Rightarrow> nat \<times> rng" where
  "c_random r = (r 0, \<lambda>n. r (Suc n))"

section \<open>Generator: basic group operations\<close>

definition group_alloc :: "cdok_puzzle \<Rightarrow> nat" where
  "group_alloc puz =
     (case find (\<lambda>i. g_size (p_groups puz i) = 0) [0..<CDOK_GROUPS] of
        Some i \<Rightarrow> i
      | None \<Rightarrow> CDOK_GROUP_NONE)"

definition group_destroy :: "cdok_puzzle \<Rightarrow> nat \<Rightarrow> (cdok_pos_t \<Rightarrow> nat) \<Rightarrow> cdok_puzzle" where
  "group_destroy puz grp solution =
     (let g = p_groups puz grp;
          puz = fold (\<lambda>i puz.
                   let c = g_members g i
                   in puz\<lparr>p_values := (p_values puz)(c := solution c),
                          p_group_map := (p_group_map puz)(c := CDOK_GROUP_NONE)\<rparr>)
                 [0..<g_size g] puz
      in puz\<lparr>p_groups := (p_groups puz)(grp := g\<lparr>g_size := 0\<rparr>)\<rparr>)"

definition group_remove ::
  "cdok_puzzle \<Rightarrow> nat \<Rightarrow> cdok_pos_t \<Rightarrow> (cdok_pos_t \<Rightarrow> nat) \<Rightarrow> cdok_puzzle" where
  "group_remove puz grp victim solution =
     (let g = p_groups puz grp
      in case find (\<lambda>i. g_members g i = victim) [0..<g_size g] of
           None \<Rightarrow> puz
         | Some i \<Rightarrow>
             puz\<lparr>p_groups := (p_groups puz)
                    (grp := g\<lparr>g_members := (g_members g)(i := g_members g (g_size g - 1)),
                              g_size := g_size g - 1\<rparr>),
                  p_values := (p_values puz)(victim := solution victim),
                  p_group_map := (p_group_map puz)(victim := CDOK_GROUP_NONE)\<rparr>)"

definition group_add :: "cdok_puzzle \<Rightarrow> nat \<Rightarrow> cdok_pos_t \<Rightarrow> cdok_puzzle" where
  "group_add puz grp c =
     (let g = p_groups puz grp
      in if p_group_map puz c \<noteq> CDOK_GROUP_NONE then puz
         else if g_size g \<ge> CDOK_GROUP_SIZE then puz
         else puz\<lparr>p_groups := (p_groups puz)
                     (grp := g\<lparr>g_members := (g_members g)(g_size g := c),
                               g_size := g_size g + 1\<rparr>),
                   p_values := (p_values puz)(c := 0),
                   p_group_map := (p_group_map puz)(c := grp)\<rparr>)"

definition CDOK_FLAGS_NONE :: nat where "CDOK_FLAGS_NONE = 0"
definition CDOK_FLAGS_TWO_CELL :: nat where "CDOK_FLAGS_TWO_CELL = 1"

text \<open>
  \<open>group_update_target\<close> returns its \<open>int\<close> with the puzzle. The loop computes \<open>max\<close>,
  \<open>sum\<close> and \<open>product\<close> of the solution's values in the group.
\<close>

definition group_update_target ::
  "cdok_puzzle \<Rightarrow> nat \<Rightarrow> (cdok_pos_t \<Rightarrow> nat) \<Rightarrow> nat \<Rightarrow> int \<times> cdok_puzzle" where
  "group_update_target puz grp solution f =
     (let g = p_groups puz grp
      in if g_size g = 0 then (0, puz)
         else if (g_type g = CDOK_DIFFERENCE \<or> g_type g = CDOK_RATIO) \<and> g_size g > 2
                 \<and> f AND CDOK_FLAGS_TWO_CELL \<noteq> 0 then (- 1, puz)
         else
           let (mx, sum, product) =
                 fold (\<lambda>i (mx, sum, product).
                         let v = int (solution (g_members g i))
                         in (if v > mx then v else mx, sum + v, c_int (product * v)))
                   [0..<g_size g] (- 1, 0, 1);
               set_target = (\<lambda>t. puz\<lparr>p_groups := (p_groups puz)(grp := g\<lparr>g_target := t\<rparr>)\<rparr>)
           in case g_type g of
                CDOK_SUM \<Rightarrow> (0, set_target sum)
              | CDOK_DIFFERENCE \<Rightarrow>
                  if mx < 0 \<or> mx * 2 < sum then (- 1, puz)
                  else (0, set_target (mx * 2 - sum))
              | CDOK_PRODUCT \<Rightarrow> (0, set_target product)
              | CDOK_RATIO \<Rightarrow>
                  if c_mod (mx * mx) product \<noteq> 0 then (- 1, puz)
                  else (0, set_target (c_div (mx * mx) product))
              | CDOK_TYPE_ZERO \<Rightarrow> (0, puz))"

section \<open>Generator: mutations\<close>

text \<open>
  \<open>CDOK_POS(random() % size, random() % size)\<close> is \<open>((random() % size) << 4) | (random() % size)\<close>
  with the \<open>y\<close> argument on the left of \<open>|\<close>. C leaves the order of the two calls open;
  the compiled code evaluates the left operand first, so the first number drawn is the
  row \<open>y\<close> and the second the column \<open>x\<close>.
\<close>

definition choose_cell :: "nat \<Rightarrow> rng \<Rightarrow> cdok_pos_t \<times> rng" where
  "choose_cell sz r =
     (let (b, r) = c_random r; (a, r) = c_random r
      in (CDOK_POS (a mod sz) (b mod sz), r))"

text \<open>
  \<open>random()\<close> is called only where the \<open>||\<close> and \<open>&&\<close> of the C conditions get to it.
  For \<open>x = 0\<close> and \<open>size \<le> 1\<close> the C code takes \<open>xn = -1\<close>, a cell outside the grid; the
  model has \<open>0 - 1 = 0\<close> there. \<open>cdok_generate\<close> never gets there, as it returns first
  for a size below 2.
\<close>

definition choose_neighbour :: "nat \<Rightarrow> cdok_pos_t \<Rightarrow> rng \<Rightarrow> cdok_pos_t \<times> rng" where
  "choose_neighbour sz c r =
     (let x = CDOK_POS_X c; y = CDOK_POS_Y c;
          (xn, r) = (if x + 1 \<ge> sz then (x - 1, r)
                     else if x \<noteq> 0 then
                       (let (a, r) = c_random r in (if a AND 1 \<noteq> 0 then x - 1 else x + 1, r))
                     else (x + 1, r));
          (yn, r) = (if y + 1 \<ge> sz then (y - 1, r)
                     else if y \<noteq> 0 then
                       (let (a, r) = c_random r in (if a AND 1 \<noteq> 0 then y - 1 else y + 1, r))
                     else (y + 1, r));
          (a, r) = c_random r
      in if a AND 1 \<noteq> 0 then (CDOK_POS xn y, r) else (CDOK_POS x yn, r))"

text \<open>The body of the loop of \<open>cut_islands\<close>; the state is the puzzle and \<open>len\<close>.\<close>

definition cut_step ::
  "nat \<Rightarrow> (cdok_pos_t \<Rightarrow> nat) \<Rightarrow> (cdok_pos_t \<Rightarrow> nat) \<Rightarrow> nat \<Rightarrow> cdok_puzzle \<times> nat \<Rightarrow>
   cdok_puzzle \<times> nat" where
  "cut_step grp map_copy solution i st =
     (let puz = fst st; len = snd st; g = p_groups puz grp; c = g_members g i
      in if map_copy c \<noteq> CDOK_GROUP_NONE
         then (puz\<lparr>p_values := (p_values puz)(c := solution c),
                    p_group_map := (p_group_map puz)(c := CDOK_GROUP_NONE)\<rparr>, len)
         else (puz\<lparr>p_groups := (p_groups puz)
                       (grp := g\<lparr>g_members := (g_members g)(len := c)\<rparr>)\<rparr>, len + 1))"

definition cut_islands ::
  "cdok_puzzle \<Rightarrow> nat \<Rightarrow> (cdok_pos_t \<Rightarrow> nat) \<Rightarrow> cdok_puzzle option" where
  "cut_islands puz grp solution =
     (let g = p_groups puz grp; start = g_members g 0
      in if g_size g = 0 then Some puz
         else
           case cdok_flood_fill (Suc CDOK_CELLS) (p_group_map puz) grp
                  (CDOK_POS_X start) (CDOK_POS_Y start) of
             None \<Rightarrow> None
           | Some map_copy \<Rightarrow>
               let (puz, len) = fold (cut_step grp map_copy solution) [0..<g_size g] (puz, 0);
                   puz = puz\<lparr>p_groups := (p_groups puz)(grp := (p_groups puz grp)\<lparr>g_size := len\<rparr>)\<rparr>
               in if len < 2 then Some (group_destroy puz grp solution) else Some puz)"

text \<open>The shuffle of the four types, for \<open>i\<close> from 3 down to 1.\<close>

definition shuffle_types :: "rng \<Rightarrow> cdok_gtype_t list \<times> rng" where
  "shuffle_types r =
     fold (\<lambda>i (types, r).
             let (a, r) = c_random r; j = a mod (i + 1)
             in (types[i := types ! j, j := types ! i], r))
       [3, 2, 1] ([CDOK_SUM, CDOK_DIFFERENCE, CDOK_PRODUCT, CDOK_RATIO], r)"

text \<open>The second loop of \<open>mut_alter_type\<close>, over the types still to try.\<close>

fun try_types ::
  "cdok_puzzle \<Rightarrow> nat \<Rightarrow> (cdok_pos_t \<Rightarrow> nat) \<Rightarrow> nat \<Rightarrow> cdok_gtype_t list \<Rightarrow> cdok_puzzle" where
  "try_types puz grp solution f [] = puz"
| "try_types puz grp solution f (t # ts) =
     (let puz = puz\<lparr>p_groups := (p_groups puz)(grp := (p_groups puz grp)\<lparr>g_type := t\<rparr>)\<rparr>;
          (res, puz) = group_update_target puz grp solution f
      in if res = 0 then puz else try_types puz grp solution f ts)"

definition mut_alter_type ::
  "cdok_puzzle \<Rightarrow> nat \<Rightarrow> (cdok_pos_t \<Rightarrow> nat) \<Rightarrow> nat \<Rightarrow> rng \<Rightarrow> cdok_puzzle \<times> rng" where
  "mut_alter_type puz grp solution f r =
     (let (types, r) = shuffle_types r
      in (try_types puz grp solution f types, r))"

text \<open>The last two lines of \<open>mut_remove_cell\<close> and of the first branch of
  \<open>mut_join_cells\<close>: update the target, and choose another type if that fails.\<close>

definition retarget ::
  "cdok_puzzle \<Rightarrow> nat \<Rightarrow> (cdok_pos_t \<Rightarrow> nat) \<Rightarrow> nat \<Rightarrow> rng \<Rightarrow> cdok_puzzle \<times> rng" where
  "retarget puz grp solution f r =
     (let (res, puz) = group_update_target puz grp solution f
      in if res < 0 then mut_alter_type puz grp solution f r else (puz, r))"

definition mut_remove_cell ::
  "cdok_puzzle \<Rightarrow> cdok_pos_t \<Rightarrow> (cdok_pos_t \<Rightarrow> nat) \<Rightarrow> nat \<Rightarrow> rng \<Rightarrow>
   (cdok_puzzle \<times> rng) option" where
  "mut_remove_cell puz c solution f r =
     (let grp = p_group_map puz c
      in if grp = CDOK_GROUP_NONE then Some (puz, r)
         else if g_size (p_groups puz grp) \<le> 2 then Some (group_destroy puz grp solution, r)
         else
           case cut_islands (group_remove puz grp c solution) grp solution of
             None \<Rightarrow> None
           | Some puz \<Rightarrow> Some (retarget puz grp solution f r))"

definition mut_join_cells ::
  "cdok_puzzle \<Rightarrow> cdok_pos_t \<Rightarrow> cdok_pos_t \<Rightarrow> (cdok_pos_t \<Rightarrow> nat) \<Rightarrow> nat \<Rightarrow> rng \<Rightarrow>
   (cdok_puzzle \<times> rng) option" where
  "mut_join_cells puz c n solution f r =
     (let ngrp = p_group_map puz n; cgrp = p_group_map puz c
      in if cgrp \<noteq> CDOK_GROUP_NONE \<and> ngrp = cgrp then Some (puz, r)
         else
           case (if cgrp \<noteq> CDOK_GROUP_NONE then mut_remove_cell puz c solution f r
                 else Some (puz, r)) of
             None \<Rightarrow> None
           | Some (puz, r) \<Rightarrow>
               if ngrp \<noteq> CDOK_GROUP_NONE
               then Some (retarget (group_add puz ngrp c) ngrp solution f r)
               else
                 let g = group_alloc puz
                 in if g = CDOK_GROUP_NONE then Some (puz, r)
                    else Some (mut_alter_type (group_add (group_add puz g c) g n)
                                 g solution f r))"

section \<open>Generator\<close>

text \<open>The inner loop of \<open>normalize_labels\<close>: the index of the least member.\<close>

definition least_member :: "cdok_group \<Rightarrow> nat" where
  "least_member g =
     fold (\<lambda>j mn. if g_members g j < g_members g mn then j else mn) [1..<g_size g] 0"

definition normalize_labels :: "cdok_puzzle \<Rightarrow> cdok_puzzle" where
  "normalize_labels puz =
     fold (\<lambda>i puz.
             let g = p_groups puz i
             in if g_size g = 0 then puz
                else
                  let mn = least_member g; j = g_members g mn;
                      ms = (g_members g)(mn := g_members g 0);
                      ms = ms(0 := j)
                  in puz\<lparr>p_groups := (p_groups puz)(i := g\<lparr>g_members := ms\<rparr>)\<rparr>)
       [0..<CDOK_GROUPS] puz"

text \<open>
  One round of the loop of \<open>harden\<close>. The state is the caller's puzzle, the working
  copy, the best score and the random numbers. \<open>score\<close> starts at 0 and \<open>cdok_solve\<close>
  gets a null solution pointer.
\<close>

definition harden_step ::
  "(cdok_pos_t \<Rightarrow> nat) \<Rightarrow> nat \<Rightarrow> int \<Rightarrow> cdok_puzzle \<times> cdok_puzzle \<times> int \<times> rng \<Rightarrow>
   (cdok_puzzle \<times> cdok_puzzle \<times> int \<times> rng) option" where
  "harden_step solution fl limit st =
     (case st of (puz, work, best_score, r) \<Rightarrow>
        let (c, r) = choose_cell (p_size puz) r;
            (cn, r) = choose_neighbour (p_size puz) c r
        in case mut_join_cells work c cn solution fl r of
             None \<Rightarrow> None
           | Some (work, r) \<Rightarrow>
               (case cdok_solve work None (Some 0) of
                  Some (res, _, Some score) \<Rightarrow>
                    if res = 0 \<and> score > best_score \<and> (limit \<le> 0 \<or> score \<le> limit)
                    then Some (work, work, score, r)
                    else Some (puz, work, best_score, r)
                | _ \<Rightarrow> None))"

fun harden_loop ::
  "nat \<Rightarrow> (cdok_pos_t \<Rightarrow> nat) \<Rightarrow> nat \<Rightarrow> int \<Rightarrow> cdok_puzzle \<times> cdok_puzzle \<times> int \<times> rng \<Rightarrow>
   (cdok_puzzle \<times> cdok_puzzle \<times> int \<times> rng) option" where
  "harden_loop 0 solution fl limit st = Some st"
| "harden_loop (Suc n) solution fl limit st =
     (case harden_step solution fl limit st of
        None \<Rightarrow> None
      | Some st \<Rightarrow> harden_loop n solution fl limit st)"

text \<open>\<open>harden\<close> returns the best score, with the caller's puzzle and the random numbers
  as it leaves them.\<close>

definition harden ::
  "cdok_puzzle \<Rightarrow> (cdok_pos_t \<Rightarrow> nat) \<Rightarrow> int \<Rightarrow> nat \<Rightarrow> int \<Rightarrow> rng \<Rightarrow>
   (int \<times> cdok_puzzle \<times> rng) option" where
  "harden puz solution best_score_in fl limit r =
     (case harden_loop 10 solution fl limit (puz, puz, best_score_in, r) of
        None \<Rightarrow> None
      | Some (puz, work, best_score, r) \<Rightarrow> Some (best_score, puz, r))"

text \<open>The loop of \<open>cdok_generate\<close>, with the number of rounds still allowed.\<close>

fun generate_loop ::
  "nat \<Rightarrow> (cdok_pos_t \<Rightarrow> nat) \<Rightarrow> nat \<Rightarrow> int \<Rightarrow> int \<Rightarrow> int \<times> cdok_puzzle \<times> rng \<Rightarrow>
   (int \<times> cdok_puzzle \<times> rng) option" where
  "generate_loop 0 solution fl limit target st = Some st"
| "generate_loop (Suc n) solution fl limit target st =
     (case st of (best_score, puz, r) \<Rightarrow>
        if target > 0 \<and> best_score \<ge> target then Some st
        else
          case harden puz solution best_score fl limit r of
            None \<Rightarrow> None
          | Some st \<Rightarrow> generate_loop n solution fl limit target st)"

text \<open>
  \<open>cdok_generate puz solution size fl iterations limit target r\<close>: \<open>puz\<close> is what the
  output parameter points to before the call. The result is the returned difficulty
  with the puzzle the parameter points to after the call.
\<close>

definition cdok_generate ::
  "cdok_puzzle \<Rightarrow> (cdok_pos_t \<Rightarrow> nat) \<Rightarrow> int \<Rightarrow> nat \<Rightarrow> int \<Rightarrow> int \<Rightarrow> int \<Rightarrow> rng \<Rightarrow>
   (int \<times> cdok_puzzle \<times> rng) option" where
  "cdok_generate puz solution sz fl iterations limit target r =
     (if sz < 2 then Some (0, puz, r)
      else
        let puz = cdok_init_puzzle (nat sz);
            puz = puz\<lparr>p_values := solution\<rparr>
        in case generate_loop (nat iterations) solution fl limit target (0, puz, r) of
             None \<Rightarrow> None
           | Some (best_score, puz, r) \<Rightarrow> Some (best_score, normalize_labels puz, r))"


section \<open>Value sets read as sets of values\<close>

lemma c_shl_push: "0 \<le> k \<Longrightarrow> k < 32 \<Longrightarrow> c_shl a k = push_bit (nat k) a"
  by (simp add: c_shl_def)

lemma CDOK_SET_ONES_mask: "0 \<le> s \<Longrightarrow> s < 32 \<Longrightarrow> CDOK_SET_ONES s = mask (nat s)"
  by (simp add: CDOK_SET_ONES_def c_shl_push mask_eq_exp_minus_1)

lemma set_has_zero: "\<not> set_has 0 v"
  by (simp add: set_has_def)

lemma set_has_single:
  assumes "1 \<le> t" "t \<le> 32"
  shows "set_has (word_of_int (CDOK_SET_SINGLE t)) v \<longleftrightarrow> t \<le> 16 \<and> v = t"
  using assms
  by (auto simp: set_has_def CDOK_SET_SINGLE_def c_shl_push bit_word_of_int_iff bit_exp_iff)

lemma set_has_range:
  assumes "1 \<le> lo" "lo \<le> hi" "hi \<le> 16"
  shows "set_has (word_of_int (CDOK_SET_RANGE lo hi)) v \<longleftrightarrow> lo \<le> v \<and> v \<le> hi"
  using assms
  by (auto simp: set_has_def CDOK_SET_RANGE_def CDOK_SET_ONES_mask c_shl_push
      bit_word_of_int_iff bit_push_bit_iff bit_mask_iff)

section \<open>The candidate sets of a sum group\<close>

lemma addends_for_values:
  assumes "1 \<le> mx" "mx \<le> 16" "0 \<le> n" "n \<noteq> 0 \<or> mx \<noteq> 1 \<or> t \<noteq> 0"
  shows "set_values (addends_for t n mx) = {max 1 (t - mx * (n - 1)) .. min mx (t - (n - 1))}"
proof (cases "t < 1 \<or> n < 1")
  case True
  have "max 1 (t - mx * (n - 1)) > min mx (t - (n - 1))"
  proof (cases "n = 0")
    case True
    with assms \<open>t < 1 \<or> n < 1\<close> show ?thesis by (auto simp: max_def min_def)
  next
    case False
    with assms have n: "1 \<le> n" by simp
    with True have "t < 1" by simp
    with n show ?thesis by (auto simp: max_def min_def)
  qed
  with True show ?thesis by (simp add: addends_for_def set_values_def set_has_zero)
next
  case False
  then have t: "1 \<le> t" and n: "1 \<le> n" by simp_all
  show ?thesis
  proof (cases "n = 1")
    case True
    with t assms show ?thesis
      by (auto simp: addends_for_def set_values_def set_has_zero set_has_single max_def min_def)
  next
    case False
    with t n assms show ?thesis
      by (auto simp: addends_for_def set_values_def set_has_zero set_has_range Let_def)
  qed
qed

lemma partial_sum_fold:
  "n \<le> length xs \<Longrightarrow>
   fold (\<lambda>i s. s + int (xs ! i)) [0..<n] s0 = s0 + sum_list (map int (take n xs))"
  by (induction n) (simp_all add: take_Suc_conv_app_nth)

text \<open>
  C7. A sum group of target \<open>T\<close> and size \<open>S\<close> on a grid of width \<open>N\<close> (\<open>1 \<le> N \<le> 16\<close>),
  with the \<open>K\<close> known values \<open>known\<close>: the candidates for its empty cells are the values
  from \<open>max 1 (T' - N * (S - K - 1))\<close> to \<open>min N (T' - (S - K - 1))\<close>, where \<open>T'\<close> is \<open>T\<close> less
  the sum of the known values; that is no value at all when the range is empty. With
  one empty cell the set is \<open>{T'}\<close> when \<open>1 \<le> T' \<le> N\<close> and empty otherwise. The group has an
  empty cell, or else the grid is wider than one cell (a group has two cells at least).
\<close>

theorem sum_candidates_range:
  assumes "1 \<le> N" "N \<le> 16" "K = length known" "int K \<le> S" "int K < S \<or> 1 < N"
  shows "set_values (sum_candidates T S known K N) =
           {max 1 ((T - sum_list (map int known)) - N * (S - int K - 1)) ..
            min N ((T - sum_list (map int known)) - (S - int K - 1))}
         \<and> (S - int K = 1 \<longrightarrow>
              set_values (sum_candidates T S known K N) =
                (if 1 \<le> T - sum_list (map int known) \<and> T - sum_list (map int known) \<le> N
                 then {T - sum_list (map int known)} else {}))"
proof -
  let ?T' = "T - sum_list (map int known)"
  have sc: "sum_candidates T S known K N = addends_for ?T' (S - int K) N"
    using assms(3) by (simp add: sum_candidates_def partial_sum_fold)
  have rng: "set_values (addends_for ?T' (S - int K) N) =
      {max 1 (?T' - N * (S - int K - 1)) .. min N (?T' - (S - int K - 1))}"
    using assms by (intro addends_for_values) auto
  have one: "S - int K = 1 \<Longrightarrow>
      {max 1 (?T' - N * (S - int K - 1)) .. min N (?T' - (S - int K - 1))} =
      (if 1 \<le> ?T' \<and> ?T' \<le> N then {?T'} else {})"
    using assms(1) by (auto simp: max_def min_def)
  show ?thesis
    unfolding sc rng using one by simp
qed

theorem sum_candidates_range_witness:
  "set_values (sum_candidates 7 3 [2] 1 4) = {1 .. 4}
   \<and> set_values (sum_candidates 5 2 [2] 1 4) = {3}"
  using sum_candidates_range [of 4 1 "[2]" 3 7] sum_candidates_range [of 4 1 "[2]" 2 5]
  by simp

section \<open>The one-factor case of \<open>factors_for\<close>\<close>

lemma factors_for_one: "1 \<le> t \<Longrightarrow> factors_for t 1 mx = word_of_int (CDOK_SET_SINGLE t)"
  by (simp add: factors_for_def)

text \<open>
  C6. With one factor left, \<open>factors_for\<close> tests \<open>target >= 1 || target <= max\<close>, which
  holds for every target that passed the first guard: the target 5 on a grid of width 4
  is returned as the set \<open>{5}\<close> (bit 4, the word 16), not as the empty set.
\<close>

theorem factors_for_one_above_max:
  "factors_for 5 1 4 = 16 \<and> set_values (factors_for 5 1 4) = {5}
   \<and> set_values (addends_for 5 1 4) = {}"
proof -
  have "factors_for 5 1 4 = 16"
    by (simp add: factors_for_def CDOK_SET_SINGLE_def c_shl_def)
  moreover have "set_values (factors_for 5 1 4) = {5}"
    by (auto simp: set_values_def factors_for_one set_has_single)
  moreover have "set_values (addends_for 5 1 4) = {}"
    by (simp add: set_values_def addends_for_def set_has_zero)
  ultimately show ?thesis by simp
qed

section \<open>The cell that the search chooses\<close>

text \<open>The cells of the \<open>n\<close> by \<open>n\<close> grid.\<close>

definition region :: "nat \<Rightarrow> cdok_pos_t set" where
  "region n = (\<lambda>(x, y). CDOK_POS x y) ` ({..<n} \<times> {..<n})"

lemma pos_in_region: "x < n \<Longrightarrow> y < n \<Longrightarrow> CDOK_POS x y \<in> region n"
  unfolding region_def by (rule image_eqI [where x = "(x, y)"]) simp_all

text \<open>The invariant of the scan: the best cell so far, if any, is an empty cell of the
  grid.\<close>

definition free_ok :: "(cdok_pos_t \<Rightarrow> nat) \<Rightarrow> nat \<Rightarrow> cdok_pos_t option \<times> int \<Rightarrow> bool" where
  "free_ok vals mx st = (\<forall>c. fst st = Some c \<longrightarrow> vals c = 0 \<and> c \<in> region mx)"

lemma least_free_step_ok:
  "free_ok vals mx st \<Longrightarrow> x < mx \<Longrightarrow> y < mx \<Longrightarrow> free_ok vals mx (least_free_step vals cands y x st)"
  unfolding free_ok_def least_free_step_def Let_def
  by (simp add: pos_in_region)

lemma least_free_row_ok:
  "free_ok vals mx st \<Longrightarrow> y < mx \<Longrightarrow>
   free_ok vals mx (fold (least_free_step vals cands y) [0..<mx] st)"
  by (rule fold_invariant [where Q = "\<lambda>x. x < mx"]) (auto intro: least_free_step_ok)

lemma search_least_free_Some:
  assumes "search_least_free vals cands mx = Some c"
  shows "vals c = 0 \<and> c \<in> region mx"
proof -
  have "free_ok vals mx (fold (\<lambda>y. fold (least_free_step vals cands y) [0..<mx]) [0..<mx] (None, 0))"
  proof (rule fold_invariant [where Q = "\<lambda>y. y < mx"])
    show "free_ok vals mx (None, 0)" by (simp add: free_ok_def)
  qed (simp_all add: least_free_row_ok)
  with assms show ?thesis
    by (simp add: search_least_free_def free_ok_def)
qed

lemma find_candidates_Some:
  "find_candidates puz vals = Some (c, cands) \<Longrightarrow> vals c = 0 \<and> c \<in> region (p_size puz)"
  unfolding find_candidates_def Let_def
  by (cases "search_least_free vals (constrain_by_groups puz vals (build_rc_candidates vals (int (p_size puz)))) (p_size puz)")
     (simp_all add: search_least_free_Some)


section \<open>The search as a function\<close>

text \<open>The empty cells of the grid: their number bounds the depth of the search.\<close>

definition empties :: "cdok_puzzle \<Rightarrow> (cdok_pos_t \<Rightarrow> nat) \<Rightarrow> cdok_pos_t set" where
  "empties puz vals = {c \<in> region (p_size puz). vals c = 0}"

lemma finite_region: "finite (region n)"
  by (simp add: region_def)

lemma finite_empties: "finite (empties puz vals)"
  by (simp add: empties_def finite_region)

lemma empties_fill:
  assumes "vals c = 0" "c \<in> region (p_size puz)" "i \<noteq> 0"
  shows "card (empties puz (vals(c := i))) < card (empties puz vals)"
proof (rule psubset_card_mono [OF finite_empties])
  have "c \<in> empties puz vals" "c \<notin> empties puz (vals(c := i))"
    using assms by (simp_all add: empties_def)
  moreover have "empties puz (vals(c := i)) \<subseteq> empties puz vals"
    using assms by (auto simp: empties_def)
  ultimately show "empties puz (vals(c := i)) \<subset> empties puz vals" by blast
qed

text \<open>
  The search of the specification (section 4.D) as a function: pick the cell that
  \<open>find_candidates\<close> picks; when no cell is empty the grid is a solution; otherwise try
  each candidate value in ascending order. The result lists the solutions in the order
  in which they are found, each with the numbers of candidates of the cells chosen on the
  way to it.
\<close>

function search_spec ::
  "cdok_puzzle \<Rightarrow> (cdok_pos_t \<Rightarrow> nat) \<Rightarrow> ((cdok_pos_t \<Rightarrow> nat) \<times> int list) list" where
  "search_spec puz vals =
     (case find_candidates puz vals of
        None \<Rightarrow> [(vals, [])]
      | Some (cell, candidates) \<Rightarrow>
          concat (map (\<lambda>i. map (\<lambda>(g, bs). (g, count_bits candidates # bs))
                               (search_spec puz (vals(cell := i))))
                    (filter (\<lambda>i. set_has candidates (int i)) [1..<Suc (p_size puz)])))"
  by pat_completeness auto
termination
proof (relation "measure (\<lambda>(puz, vals). card (empties puz vals))")
  show "wf (measure (\<lambda>(puz, vals). card (empties puz vals)))" by simp
next
  fix puz :: cdok_puzzle and vals :: "cdok_pos_t \<Rightarrow> nat" and x2 cell candidates and i :: nat
  assume fc: "find_candidates puz vals = Some x2" "(cell, candidates) = x2"
    and i: "i \<in> set (filter (\<lambda>i. set_has candidates (int i)) [1..<Suc (p_size puz)])"
  from fc have "vals cell = 0 \<and> cell \<in> region (p_size puz)"
    using find_candidates_Some [of puz vals cell candidates] by simp
  moreover from i have "i \<noteq> 0" by auto
  ultimately show "((puz, vals(cell := i)), (puz, vals)) \<in> measure (\<lambda>(puz, vals). card (empties puz vals))"
    by (simp add: empties_fill)
qed

declare search_spec.simps [simp del]

text \<open>The branch difficulty of a path: the sum of \<open>(B - 1)\<^sup>2\<close> over its steps.\<close>

definition path_difficulty :: "int list \<Rightarrow> int" where
  "path_difficulty bs = sum_list (map (\<lambda>b. (b - 1) * (b - 1)) bs)"

text \<open>What finding the solutions \<open>found\<close>, in this order, does to a context: the first
  one is stored, with its branch difficulty, if no solution was counted before.\<close>

definition record_found ::
  "solver_context \<Rightarrow> int \<Rightarrow> ((cdok_pos_t \<Rightarrow> nat) \<times> int list) list \<Rightarrow> solver_context" where
  "record_found ctx bd found =
     (case found of
        [] \<Rightarrow> ctx
      | (g, bs) # _ \<Rightarrow>
          (if ctx_count ctx = 0
           then ctx\<lparr>ctx_solution := map_option (\<lambda>_. g) (ctx_solution ctx),
                    ctx_branch_diff := bd + path_difficulty bs\<rparr>
           else ctx)
          \<lparr>ctx_count := ctx_count ctx + length found\<rparr>)"

lemma record_found_Nil [simp]: "record_found ctx bd [] = ctx"
  by (simp add: record_found_def)

lemma record_found_fields [simp]:
  "ctx_values (record_found ctx bd found) = ctx_values ctx"
  "ctx_puzzle (record_found ctx bd found) = ctx_puzzle ctx"
  "ctx_count (record_found ctx bd found) = ctx_count ctx + length found"
  by (simp_all add: record_found_def split: list.splits prod.splits)

lemma record_found_values_update:
  "(record_found ctx bd found)\<lparr>ctx_values := v\<rparr> = record_found (ctx\<lparr>ctx_values := v\<rparr>) bd found"
  by (simp add: record_found_def split: list.splits prod.splits)

lemma record_found_append:
  "record_found (record_found ctx bd f1) bd f2 = record_found ctx bd (f1 @ f2)"
  by (cases f1; cases f2) (auto simp: record_found_def split: prod.splits)

lemma record_found_step:
  "record_found ctx (bd + (b - 1) * (b - 1)) found =
   record_found ctx bd (map (\<lambda>(g, bs). (g, b # bs)) found)"
  by (cases found) (auto simp: record_found_def path_difficulty_def split: prod.splits)

lemma single_test:
  "1 \<le> i \<Longrightarrow> i \<le> 32 \<Longrightarrow>
   (uint s AND CDOK_SET_SINGLE (int i) = 0) = (\<not> set_has s (int i))"
  by (auto simp: CDOK_SET_SINGLE_def c_shl_push set_has_def and_exp_eq_0_iff_not_bit bit_uint_iff
      dest: bit_imp_le_length)

lemma solve_values_refines:
  fixes puz vals cell cands fuel bd
  defines "b \<equiv> count_bits cands"
  defines "recurse \<equiv> (\<lambda>c. solve_recurse fuel c (bd + (b - 1) * (b - 1)))"
  assumes IH: "\<And>c. p_size (ctx_puzzle c) \<le> CDOK_SIZE \<Longrightarrow>
      card (empties (ctx_puzzle c) (ctx_values c)) < fuel \<Longrightarrow> ctx_count c < 2 \<Longrightarrow>
      recurse c = Some (record_found c (bd + (b - 1) * (b - 1))
                          (take (2 - ctx_count c) (search_spec (ctx_puzzle c) (ctx_values c))))"
    and cell: "vals cell = 0" "cell \<in> region (p_size puz)"
    and fuel: "card (empties puz vals) \<le> fuel"
    and size: "p_size puz \<le> CDOK_SIZE"
  shows "\<forall>i\<in>set is. 1 \<le> i \<and> i \<le> 32 \<Longrightarrow> ctx_puzzle ctx = puz \<Longrightarrow> ctx_values ctx = vals \<Longrightarrow>
         ctx_count ctx < 2 \<Longrightarrow>
         solve_values recurse cell cands is ctx =
           Some (record_found ctx bd
             (take (2 - ctx_count ctx)
               (concat (map (\<lambda>i. map (\<lambda>(g, bs). (g, b # bs)) (search_spec puz (vals(cell := i))))
                            (filter (\<lambda>i. set_has cands (int i)) is)))))"
proof (induction "is" arbitrary: ctx)
  case Nil
  then show ?case by simp
next
  case (Cons i rest)
  let ?rest = "concat (map (\<lambda>i. map (\<lambda>(g, bs). (g, b # bs)) (search_spec puz (vals(cell := i))))
                            (filter (\<lambda>i. set_has cands (int i)) rest))"
  from Cons.prems have i: "1 \<le> i" "i \<le> 32" and rest: "\<forall>i\<in>set rest. 1 \<le> i \<and> i \<le> 32"
    by simp_all
  show ?case
  proof (cases "set_has cands (int i)")
    case False
    with i have "uint cands AND CDOK_SET_SINGLE (int i) = 0" by (simp add: single_test)
    with False Cons.IH [OF rest Cons.prems(2,3,4)] show ?thesis by simp
  next
    case True
    with i have test: "uint cands AND CDOK_SET_SINGLE (int i) \<noteq> 0" by (simp add: single_test)
    let ?c = "ctx\<lparr>ctx_values := (ctx_values ctx)(cell := i)\<rparr>"
    let ?S = "search_spec puz (vals(cell := i))"
    let ?n = "2 - ctx_count ctx"
    let ?d = "bd + (b - 1) * (b - 1)"
    have "card (empties puz (vals(cell := i))) < card (empties puz vals)"
      using cell i by (intro empties_fill) simp_all
    with fuel Cons.prems have "card (empties (ctx_puzzle ?c) (ctx_values ?c)) < fuel" by simp
    moreover have "ctx_count ?c < 2" using Cons.prems by simp
    ultimately have rec: "recurse ?c = Some (record_found ?c ?d (take ?n ?S))"
      using IH [of ?c] Cons.prems size by simp
    let ?ctx2 = "record_found ctx ?d (take ?n ?S)"
    have ctx2: "(record_found ?c ?d (take ?n ?S))
                  \<lparr>ctx_values := (ctx_values (record_found ?c ?d (take ?n ?S)))(cell := 0)\<rparr> = ?ctx2"
    proof -
      let ?r = "record_found ?c ?d (take ?n ?S)"
      have "(ctx_values ?r)(cell := 0) = vals"
        using cell Cons.prems(3) by (simp add: fun_upd_idem)
      then have "?r\<lparr>ctx_values := (ctx_values ?r)(cell := 0)\<rparr> = ?r\<lparr>ctx_values := vals\<rparr>"
        by (rule arg_cong)
      also have "\<dots> = record_found (?c\<lparr>ctx_values := vals\<rparr>) ?d (take ?n ?S)"
        by (rule record_found_values_update)
      also have "?c\<lparr>ctx_values := vals\<rparr> = ctx"
        using Cons.prems(3) by (cases ctx) auto
      finally show ?thesis .
    qed
    have step: "?ctx2 = record_found ctx bd (map (\<lambda>(g, bs). (g, b # bs)) (take ?n ?S))"
      by (rule record_found_step)
    have unfold: "solve_values recurse cell cands (i # rest) ctx =
        (if ctx_count ?ctx2 \<ge> 2 then Some ?ctx2 else solve_values recurse cell cands rest ?ctx2)"
      by (simp only: solve_values.simps test if_False rec option.simps Let_def ctx2)
    have flt: "filter (\<lambda>i. set_has cands (int i)) (i # rest) =
               i # filter (\<lambda>i. set_has cands (int i)) rest"
      using \<open>set_has cands (int i)\<close> by simp
    let ?all = "concat (map (\<lambda>i. map (\<lambda>(g, bs). (g, b # bs)) (search_spec puz (vals(cell := i))))
                            (filter (\<lambda>i. set_has cands (int i)) (i # rest)))"
    have all: "?all = map (\<lambda>(g, bs). (g, b # bs)) ?S @ ?rest"
      unfolding flt by simp
    show ?thesis
    proof (cases "ctx_count ?ctx2 \<ge> 2")
      case True
      then have "length ?S \<ge> ?n" by simp
      then have "take ?n ?all = map (\<lambda>(g, bs). (g, b # bs)) (take ?n ?S)"
        unfolding all by (simp add: take_map)
      then have "record_found ctx bd (take ?n ?all) = ?ctx2"
        by (simp only: step)
      moreover have "solve_values recurse cell cands (i # rest) ctx = Some ?ctx2"
        by (simp only: unfold True if_True)
      ultimately show ?thesis by (simp only:)
    next
      case False
      then have len: "length ?S < ?n" by simp
      then have tk: "take ?n ?S = ?S" by simp
      have c2: "ctx_puzzle ?ctx2 = puz" "ctx_values ?ctx2 = vals" "ctx_count ?ctx2 < 2"
        using Cons.prems False by simp_all
      have "solve_values recurse cell cands (i # rest) ctx =
            solve_values recurse cell cands rest ?ctx2"
        by (simp only: unfold False if_False)
      also have "\<dots> = Some (record_found ?ctx2 bd (take (2 - ctx_count ?ctx2) ?rest))"
        by (rule Cons.IH [OF rest c2])
      also have "record_found ?ctx2 bd (take (2 - ctx_count ?ctx2) ?rest) =
                 record_found ctx bd (map (\<lambda>(g, bs). (g, b # bs)) ?S @ take (2 - ctx_count ?ctx2) ?rest)"
        by (simp only: tk record_found_step record_found_append)
      also have "map (\<lambda>(g, bs). (g, b # bs)) ?S @ take (2 - ctx_count ?ctx2) ?rest = take ?n ?all"
        unfolding all using len by (simp add: tk)
      finally show ?thesis .
    qed
  qed
qed

lemma solve_recurse_refines:
  "p_size (ctx_puzzle ctx) \<le> CDOK_SIZE \<Longrightarrow>
   card (empties (ctx_puzzle ctx) (ctx_values ctx)) < fuel \<Longrightarrow> ctx_count ctx < 2 \<Longrightarrow>
   solve_recurse fuel ctx bd =
     Some (record_found ctx bd
            (take (2 - ctx_count ctx) (search_spec (ctx_puzzle ctx) (ctx_values ctx))))"
proof (induction fuel arbitrary: ctx bd)
  case 0
  then show ?case by simp
next
  case (Suc fuel)
  let ?puz = "ctx_puzzle ctx" and ?vals = "ctx_values ctx"
  show ?case
  proof (cases "find_candidates ?puz ?vals")
    case None
    then have "search_spec ?puz ?vals = [(?vals, [])]" by (subst search_spec.simps) simp
    moreover have "take (2 - ctx_count ctx) [(?vals, [])] = [(?vals, [])]"
      using Suc.prems by (cases "2 - ctx_count ctx") simp_all
    ultimately show ?thesis
      using None by (simp add: record_found_def path_difficulty_def)
  next
    case (Some r)
    obtain cell cands where r: "r = (cell, cands)" by (cases r)
    with Some have fc: "find_candidates ?puz ?vals = Some (cell, cands)" by simp
    then have cell: "?vals cell = 0" "cell \<in> region (p_size ?puz)"
      using find_candidates_Some by blast+
    have sp: "search_spec ?puz ?vals =
        concat (map (\<lambda>i. map (\<lambda>(g, bs). (g, count_bits cands # bs)) (search_spec ?puz (?vals(cell := i))))
                    (filter (\<lambda>i. set_has cands (int i)) [1..<Suc (p_size ?puz)]))"
      using fc by (subst search_spec.simps) simp
    show ?thesis
    proof (cases "cands = 0")
      case True
      then have "search_spec ?puz ?vals = []"
        unfolding sp by (simp add: set_has_zero)
      with True fc show ?thesis by simp
    next
      case False
      have "solve_values (\<lambda>c. solve_recurse fuel c (bd + (count_bits cands - 1) * (count_bits cands - 1)))
              cell cands [1..<Suc (p_size ?puz)] ctx =
            Some (record_found ctx bd (take (2 - ctx_count ctx) (search_spec ?puz ?vals)))"
        unfolding sp
      proof (rule solve_values_refines [where fuel = fuel and puz = "?puz" and vals = "?vals"])
        show "card (empties ?puz ?vals) \<le> fuel" using Suc.prems by simp
        show "\<forall>i\<in>set [1..<Suc (p_size ?puz)]. 1 \<le> i \<and> i \<le> 32"
          using Suc.prems(1) by (auto simp: CDOK_SIZE_def)
        show "ctx_count ctx < 2" by fact
        show "p_size ?puz \<le> CDOK_SIZE" by fact
        show "?vals cell = 0" "cell \<in> region (p_size ?puz)" by fact+
      qed (simp_all add: Suc.IH)
      with False fc show ?thesis by (simp add: Let_def)
    qed
  qed
qed

section \<open>The scale, the empty cells, the size of a value set\<close>

lemma scale_loop_pow:
  "1 \<le> m \<Longrightarrow> \<exists>k. scale_loop m n = Some (m * 10 ^ k) \<and> n \<le> m * 10 ^ k \<and> (\<forall>j. n \<le> m * 10 ^ j \<longrightarrow> k \<le> j)"
proof (induction "nat (n - m)" arbitrary: m rule: less_induct)
  case less
  show ?case
  proof (cases "m < n")
    case False
    then have "scale_loop m n = Some (m * 10 ^ 0)"
      by (subst scale_loop.simps) simp
    with False show ?thesis by (intro exI [of _ 0]) simp
  next
    case True
    with less.prems have "nat (n - m * 10) < nat (n - m)" by simp
    from less.hyps [OF this] less.prems obtain k where
      k: "scale_loop (m * 10) n = Some (m * 10 * 10 ^ k)" "n \<le> m * 10 * 10 ^ k"
         "\<forall>j. n \<le> m * 10 * 10 ^ j \<longrightarrow> k \<le> j"
      by auto
    have "scale_loop m n = Some (m * 10 ^ Suc k)"
      using True k(1) by (subst scale_loop.simps) (simp add: mult.assoc)
    moreover have "n \<le> m * 10 ^ Suc k" using k(2) by (simp add: mult.assoc)
    moreover have "Suc k \<le> j" if "n \<le> m * 10 ^ j" for j
    proof (cases j)
      case 0
      with that True show ?thesis by simp
    next
      case (Suc j')
      with that have "n \<le> m * 10 * 10 ^ j'" by (simp add: mult.assoc)
      with k(3) Suc show ?thesis by simp
    qed
    ultimately show ?thesis by blast
  qed
qed

lemma count_fold:
  "fold (\<lambda>x e. if P x then e + 1 else e) [0..<n] (e0 :: int) = e0 + int (card {x. x < n \<and> P x})"
proof (induction n)
  case 0
  then show ?case by simp
next
  case (Suc n)
  have "{x. x < Suc n \<and> P x} = {x. x < n \<and> P x} \<union> (if P n then {n} else {})"
    by (auto simp: less_Suc_eq)
  then have "card {x. x < Suc n \<and> P x} = card {x. x < n \<and> P x} + (if P n then 1 else 0)"
    by simp
  with Suc show ?case by simp
qed

lemma count_fold2:
  "fold (\<lambda>y. fold (\<lambda>x e. if P x y then e + 1 else e) [0..<n]) [0..<m] (e0 :: int) =
   e0 + int (card {(x, y). x < n \<and> y < m \<and> P x y})"
proof (induction m)
  case 0
  then show ?case by simp
next
  case (Suc m)
  let ?A = "{(x, y). x < n \<and> y < m \<and> P x y}"
  let ?B = "(\<lambda>x. (x, m)) ` {x. x < n \<and> P x m}"
  have "finite ?A"
    by (rule finite_subset [of _ "{..<n} \<times> {..<m}"]) auto
  moreover have "finite ?B" by simp
  ultimately have fin: "finite ?A" "finite ?B" .
  have "{(x, y). x < n \<and> y < Suc m \<and> P x y} = ?A \<union> ?B"
    by (auto simp: less_Suc_eq)
  moreover have "?A \<inter> ?B = {}" by auto
  ultimately have "card {(x, y). x < n \<and> y < Suc m \<and> P x y} = card ?A + card ?B"
    using fin by (simp add: card_Un_disjoint)
  moreover have "card ?B = card {x. x < n \<and> P x m}"
    by (rule card_image) (simp add: inj_on_def)
  ultimately show ?case
    using Suc by (simp add: count_fold)
qed

lemma count_empty_card:
  "count_empty puz =
   int (card {(x, y). x < p_size puz \<and> y < p_size puz \<and> p_values puz (CDOK_POS x y) = 0})"
  unfolding count_empty_def by (simp add: count_fold2)

lemma card_region: "card (region n) \<le> n * n"
proof -
  have "card (region n) \<le> card ({..<n} \<times> {..<n})"
    unfolding region_def by (rule card_image_le) simp
  then show ?thesis by simp
qed

lemma card_empties: "p_size puz \<le> CDOK_SIZE \<Longrightarrow> card (empties puz vals) < Suc CDOK_CELLS"
proof -
  assume n: "p_size puz \<le> CDOK_SIZE"
  have "card (empties puz vals) \<le> card (region (p_size puz))"
    by (rule card_mono) (auto simp: empties_def finite_region)
  also have "\<dots> \<le> p_size puz * p_size puz" by (rule card_region)
  also have "\<dots> \<le> 16 * 16" using n by (intro mult_le_mono) (simp_all add: CDOK_SIZE_def)
  finally show ?thesis by (simp add: CDOK_CELLS_def)
qed



text \<open>The number of bits that are set in a natural number.\<close>

definition popc :: "nat \<Rightarrow> nat" where "popc n = card {k. bit n k}"

lemma bits_Suc: "{k. bit (n :: nat) k} = (if odd n then {0} else {}) \<union> Suc ` {k. bit (n div 2) k}"
proof -
  have "bit n k \<longleftrightarrow> (k = 0 \<and> odd n) \<or> (\<exists>j. k = Suc j \<and> bit (n div 2) j)" for k
    by (cases k) (simp_all add: bit_0 bit_Suc)
  then show ?thesis by (auto simp: image_iff)
qed

lemma finite_bits_nat: "finite {k. bit (n :: nat) k}"
proof (rule finite_subset)
  show "{k. bit n k} \<subseteq> {..n}"
  proof (rule subsetI)
    fix k assume "k \<in> {k. bit n k}"
    then have "odd (n div 2 ^ k)" by (simp add: bit_iff_odd)
    then have "n div 2 ^ k \<noteq> 0" by (intro notI) simp
    then have "2 ^ k \<le> n" by (simp add: div_eq_0_iff)
    then have "k \<le> n" using less_exp [of k] by linarith
    then show "k \<in> {..n}" by simp
  qed
qed simp

lemma popc_rec: "popc n = (if odd n then 1 else 0) + popc (n div 2)"
proof -
  have "card (Suc ` {k. bit (n div 2) k}) = popc (n div 2)"
    unfolding popc_def by (rule card_image) simp
  moreover have "0 \<notin> Suc ` {k. bit (n div 2) k}" by auto
  moreover have "finite (Suc ` {k. bit (n div 2) k})"
    by (intro finite_imageI finite_bits_nat)
  ultimately show ?thesis
    unfolding popc_def [of n] by (subst bits_Suc) (simp add: card_insert_if)
qed

lemma popc_double: "popc (2 * m) = popc m"
  by (subst popc_rec) simp

lemma popc_double1: "popc (Suc (2 * m)) = Suc (popc m)"
  by (subst popc_rec) simp

lemma popc_clear_lowest: "0 < n \<Longrightarrow> Suc (popc (n AND (n - 1))) = popc n"
proof (induction n rule: less_induct)
  case (less n)
  show ?case
  proof (cases "odd n")
    case True
    then obtain m where m: "n = Suc (2 * m)" by (auto elim: oddE)
    have "n AND (n - 1) = 2 * m"
      unfolding m by (subst and_rec) simp
    then show ?thesis
      by (simp add: m popc_double popc_double1)
  next
    case False
    then obtain m where m: "n = 2 * m" by (auto elim: evenE)
    with less.prems have m0: "0 < m" "m < n" by simp_all
    have "(2 * m - 1) div 2 = m - 1" using m0 by simp
    then have "n AND (n - 1) = 2 * (m AND (m - 1))"
      unfolding m by (subst and_rec) simp
    then have "popc (n AND (n - 1)) = popc (m AND (m - 1))"
      by (simp only: popc_double)
    moreover have "popc n = popc m" by (simp add: popc_double m)
    ultimately show ?thesis using less.IH [OF m0(2) m0(1)] by simp
  qed
qed

lemma count_bits_popc: "count_bits s = int (popc (unat s))"
proof (induction s rule: count_bits.induct)
  case (1 s)
  show ?case
  proof (cases "s = 0")
    case True
    then show ?thesis by (subst count_bits.simps) (simp add: popc_def)
  next
    case False
    then have "unat (s AND (s - 1)) = unat s AND (unat s - 1)"
      by (simp add: unsigned_and_eq unat_minus_one)
    moreover have "0 < unat s" using False by (simp add: unat_gt_0)
    ultimately have "Suc (popc (unat (s AND (s - 1)))) = popc (unat s)"
      using popc_clear_lowest [of "unat s"] by simp
    with False 1 show ?thesis by (subst count_bits.simps) simp
  qed
qed

lemma set_values_bits: "set_values s = (\<lambda>k. int k + 1) ` {k. bit (unat s) k}"
proof (rule set_eqI)
  fix v
  show "v \<in> set_values s \<longleftrightarrow> v \<in> (\<lambda>k. int k + 1) ` {k. bit (unat s) k}"
  proof
    assume "v \<in> set_values s"
    then have "1 \<le> v" "bit (unat s) (nat (v - 1))"
      by (simp_all add: set_values_def set_has_def bit_unsigned_iff)
    then show "v \<in> (\<lambda>k. int k + 1) ` {k. bit (unat s) k}"
      by (intro image_eqI [where x = "nat (v - 1)"]) simp_all
  next
    assume "v \<in> (\<lambda>k. int k + 1) ` {k. bit (unat s) k}"
    then show "v \<in> set_values s"
      by (auto simp: set_values_def set_has_def bit_unsigned_iff)
  qed
qed

lemma count_bits_card: "count_bits s = int (card (set_values s))"
proof -
  have "card (set_values s) = popc (unat s)"
    unfolding set_values_bits popc_def by (rule card_image) (rule inj_onI, simp)
  then show ?thesis by (simp add: count_bits_popc)
qed

section \<open>What \<open>cdok_solve\<close> returns\<close>

lemma solve_recurse_init:
  assumes "p_size puz \<le> CDOK_SIZE"
  shows "solve_recurse (Suc CDOK_CELLS) (solver_init puz solution) 0 =
         Some (record_found (solver_init puz solution) 0 (take 2 (search_spec puz (p_values puz))))"
proof -
  have "card (empties (ctx_puzzle (solver_init puz solution)) (ctx_values (solver_init puz solution)))
          < Suc CDOK_CELLS"
    using assms by (simp add: solver_init_def card_empties)
  moreover have "ctx_count (solver_init puz solution) < 2"
    by (simp add: solver_init_def)
  ultimately show ?thesis
    using solve_recurse_refines [of "solver_init puz solution" "Suc CDOK_CELLS" 0] assms
    by (simp add: solver_init_def)
qed

lemma cdok_solve_result:
  assumes "p_size puz \<le> CDOK_SIZE"
  shows "\<exists>k. int (p_size puz) * int (p_size puz) \<le> 10 ^ k
           \<and> (\<forall>j. int (p_size puz) * int (p_size puz) \<le> 10 ^ j \<longrightarrow> k \<le> j)
           \<and> cdok_solve puz solution diff =
               Some (case search_spec puz (p_values puz) of
                       [] \<Rightarrow> (- 1, solution, diff)
                     | (g, bs) # rest \<Rightarrow>
                         (if rest = [] then 0 else 1,
                          map_option (\<lambda>_. g) solution,
                          map_option (\<lambda>_. path_difficulty bs * 10 ^ k + count_empty puz) diff))"
proof -
  let ?n = "int (p_size puz) * int (p_size puz)"
  from scale_loop_pow [of 1 ?n] obtain k where
    k: "scale_loop 1 ?n = Some (10 ^ k)" "?n \<le> 10 ^ k" "\<forall>j. ?n \<le> 10 ^ j \<longrightarrow> k \<le> j"
    by auto
  let ?sols = "search_spec puz (p_values puz)"
  note init = solve_recurse_init [OF assms, of solution]
  have "cdok_solve puz solution diff =
               Some (case ?sols of
                       [] \<Rightarrow> (- 1, solution, diff)
                     | (g, bs) # rest \<Rightarrow>
                         (if rest = [] then 0 else 1,
                          map_option (\<lambda>_. g) solution,
                          map_option (\<lambda>_. path_difficulty bs * 10 ^ k + count_empty puz) diff))"
  proof (cases ?sols)
    case Nil
    then show ?thesis
      unfolding cdok_solve_def init by (simp add: solver_init_def)
  next
    case (Cons first rest)
    obtain g bs where first: "first = (g, bs)" by (cases first)
    show ?thesis
    proof (cases rest)
      case Nil
      with Cons first k(1) show ?thesis
        unfolding cdok_solve_def init
        by (cases diff) (simp_all add: solver_init_def record_found_def)
    next
      case (Cons second rest')
      with \<open>?sols = first # rest\<close> first k(1) show ?thesis
        unfolding cdok_solve_def init
        by (cases diff) (simp_all add: solver_init_def record_found_def)
    qed
  qed
  with k(2,3) show ?thesis by blast
qed

text \<open>
  \<open>search_path puz vals g bs\<close>: the search reaches the solution \<open>g\<close> from the grid \<open>vals\<close>
  by steps whose chosen cells have \<open>bs\<close> candidate values.
\<close>

inductive search_path ::
  "cdok_puzzle \<Rightarrow> (cdok_pos_t \<Rightarrow> nat) \<Rightarrow> (cdok_pos_t \<Rightarrow> nat) \<Rightarrow> int list \<Rightarrow> bool" where
  leaf: "find_candidates puz vals = None \<Longrightarrow> search_path puz vals vals []"
| step: "find_candidates puz vals = Some (cell, cands) \<Longrightarrow>
         1 \<le> i \<Longrightarrow> i \<le> p_size puz \<Longrightarrow> int i \<in> set_values cands \<Longrightarrow>
         search_path puz (vals(cell := i)) g bs \<Longrightarrow>
         search_path puz vals g (int (card (set_values cands)) # bs)"

lemma search_spec_paths:
  "(g, bs) \<in> set (search_spec puz vals) \<Longrightarrow> search_path puz vals g bs"
proof (induction puz vals arbitrary: g bs rule: search_spec.induct)
  case (1 puz vals)
  show ?case
  proof (cases "find_candidates puz vals")
    case None
    with "1.prems" have "g = vals" "bs = []"
      by (simp_all add: search_spec.simps [of puz vals])
    with None show ?thesis by (simp add: search_path.leaf)
  next
    case (Some r)
    obtain cell cands where r: "r = (cell, cands)" by (cases r)
    from "1.prems" Some r obtain i bs' where
      i: "i \<in> set [1..<Suc (p_size puz)]" "set_has cands (int i)"
      and sub: "(g, bs') \<in> set (search_spec puz (vals(cell := i)))"
      and bs: "bs = count_bits cands # bs'"
      by (auto simp: search_spec.simps [of puz vals])
    have "i \<in> set (filter (\<lambda>i. set_has cands (int i)) [1..<Suc (p_size puz)])"
      using i by (simp only: set_filter mem_Collect_eq)
    from "1.IH" [OF Some r [symmetric] this sub]
    have "search_path puz (vals(cell := i)) g bs'" .
    moreover have "1 \<le> i" "i \<le> p_size puz" using i(1) by auto
    moreover have "int i \<in> set_values cands" using i(2) by (simp add: set_values_def)
    ultimately have "search_path puz vals g (int (card (set_values cands)) # bs')"
      using Some r by (intro search_path.step [where cell = cell and i = i]) simp_all
    then show ?thesis by (simp add: bs count_bits_card)
  qed
qed

section \<open>The claims about the solver\<close>

text \<open>Two puzzles of size 2 to run the solver on. \<open>example_puzzle\<close> is
  \<^verbatim>\<open>A+3 A / 2 1\<close>: the top row is a sum group of target 3. \<open>open_puzzle\<close> has no
  given and no group, so both Latin squares of size 2 solve it.\<close>

definition no_group :: cdok_group where
  "no_group = \<lparr>g_type = CDOK_TYPE_ZERO, g_target = - 1, g_size = 0, g_members = (\<lambda>_. 0)\<rparr>"

definition example_puzzle :: cdok_puzzle where
  "example_puzzle =
     \<lparr>p_size = 2,
      p_groups = (\<lambda>i. if i = 0
                       then \<lparr>g_type = CDOK_SUM, g_target = 3, g_size = 2,
                             g_members = (\<lambda>j. if j = 0 then 0 else 1)\<rparr>
                       else no_group),
      p_values = (\<lambda>c. if c = 16 then 2 else if c = 17 then 1 else 0),
      p_group_map = (\<lambda>c. if c < 2 then 0 else 255)\<rparr>"

lemma example_paths: "map snd (search_spec example_puzzle (p_values example_puzzle)) = [[1, 1]]"
  by code_simp

text \<open>
  C1. For a puzzle of size at most \<open>CDOK_SIZE\<close>, \<open>solve_recurse\<close> returns, and the context
  it leaves is the one that records the first two solutions of the search in which the
  candidate values of each chosen cell are tried in ascending order (\<open>search_spec\<close>); the
  counter is the number of those solutions, at most 2. \<open>cdok_solve\<close> returns \<open>-1\<close> exactly
  when the counter is 0, \<open>0\<close> exactly when it is 1, and \<open>1\<close> exactly when it is 2.
\<close>

theorem cdok_solve_classification:
  assumes "p_size puz \<le> CDOK_SIZE"
  shows "\<exists>ctx ret sol' diff'.
           solve_recurse (Suc CDOK_CELLS) (solver_init puz solution) 0 = Some ctx
         \<and> ctx = record_found (solver_init puz solution) 0 (take 2 (search_spec puz (p_values puz)))
         \<and> ctx_count ctx = min 2 (length (search_spec puz (p_values puz)))
         \<and> cdok_solve puz solution diff = Some (ret, sol', diff')
         \<and> (ret = - 1 \<longleftrightarrow> ctx_count ctx = 0)
         \<and> (ret = 0 \<longleftrightarrow> ctx_count ctx = 1)
         \<and> (ret = 1 \<longleftrightarrow> ctx_count ctx = 2)"
proof -
  let ?sols = "search_spec puz (p_values puz)"
  let ?ctx = "record_found (solver_init puz solution) 0 (take 2 ?sols)"
  have cnt: "ctx_count ?ctx = min 2 (length ?sols)"
    by (simp add: solver_init_def min.commute)
  from cdok_solve_result [OF assms, of solution diff] obtain k where
    res: "cdok_solve puz solution diff =
               Some (case ?sols of
                       [] \<Rightarrow> (- 1, solution, diff)
                     | (g, bs) # rest \<Rightarrow>
                         (if rest = [] then 0 else 1,
                          map_option (\<lambda>_. g) solution,
                          map_option (\<lambda>_. path_difficulty bs * 10 ^ k + count_empty puz) diff))"
    by blast
  obtain ret sol' diff' where r: "cdok_solve puz solution diff = Some (ret, sol', diff')"
    and ret: "ret = (case ?sols of [] \<Rightarrow> - 1 | _ # rest \<Rightarrow> if rest = [] then 0 else 1)"
    using res by (cases ?sols) (auto split: prod.splits)
  have cls: "ret = - 1 \<longleftrightarrow> ctx_count ?ctx = 0" "ret = 0 \<longleftrightarrow> ctx_count ?ctx = 1"
      "ret = 1 \<longleftrightarrow> ctx_count ?ctx = 2"
    unfolding cnt ret by (cases ?sols; cases "tl ?sols"; auto split: list.splits)+
  show ?thesis
    by (rule exI [of _ ?ctx], rule exI [of _ ret], rule exI [of _ sol'], rule exI [of _ diff'])
       (intro conjI solve_recurse_init [OF assms] refl cnt r cls)
qed

theorem cdok_solve_classification_witness:
  "\<exists>ctx ret sol' diff'.
           solve_recurse (Suc CDOK_CELLS) (solver_init example_puzzle None) 0 = Some ctx
         \<and> ctx = record_found (solver_init example_puzzle None) 0
                   (take 2 (search_spec example_puzzle (p_values example_puzzle)))
         \<and> ctx_count ctx = min 2 (length (search_spec example_puzzle (p_values example_puzzle)))
         \<and> cdok_solve example_puzzle None None = Some (ret, sol', diff')
         \<and> (ret = - 1 \<longleftrightarrow> ctx_count ctx = 0)
         \<and> (ret = 0 \<longleftrightarrow> ctx_count ctx = 1)
         \<and> (ret = 1 \<longleftrightarrow> ctx_count ctx = 2)"
proof -
  have "p_size example_puzzle \<le> CDOK_SIZE"
    by (simp add: example_puzzle_def CDOK_SIZE_def)
  from cdok_solve_classification [OF this] show ?thesis .
qed

text \<open>
  C3. Let the first solution of the search be reached by the path whose chosen cells have
  \<open>bs\<close> candidates, in order (\<open>search_path\<close>: each entry is the number of values in the
  candidate set of the cell chosen at that step). The difficulty that \<open>cdok_solve\<close>
  reports is \<open>B * M + E\<close>, where \<open>B\<close> is the sum of \<open>(b - 1)\<^sup>2\<close> over \<open>bs\<close>, \<open>M = 10 ^ k\<close> is the
  least power of 10 that is at least \<open>N\<^sup>2\<close>, and \<open>E\<close> is the number of empty cells of the
  puzzle. When every step is forced (\<open>b = 1\<close>) the difficulty is \<open>E\<close>.
\<close>

theorem cdok_solve_difficulty:
  assumes "p_size puz \<le> CDOK_SIZE"
    and "search_spec puz (p_values puz) = (g, bs) # rest"
  shows "\<exists>ret sol' k.
           cdok_solve puz solution (Some d) =
             Some (ret, sol', Some ((\<Sum>b\<leftarrow>bs. (b - 1) * (b - 1)) * 10 ^ k
                    + int (card {(x, y). x < p_size puz \<and> y < p_size puz
                                          \<and> p_values puz (CDOK_POS x y) = 0})))
         \<and> search_path puz (p_values puz) g bs
         \<and> int (p_size puz) * int (p_size puz) \<le> 10 ^ k
         \<and> (\<forall>j. int (p_size puz) * int (p_size puz) \<le> 10 ^ j \<longrightarrow> k \<le> j)
         \<and> ((\<forall>b\<in>set bs. b = 1) \<longrightarrow>
              cdok_solve puz solution (Some d) =
                Some (ret, sol', Some (int (card {(x, y). x < p_size puz \<and> y < p_size puz
                                          \<and> p_values puz (CDOK_POS x y) = 0}))))"
proof -
  from cdok_solve_result [OF assms(1), of solution "Some d"] assms(2) obtain k where
    k: "int (p_size puz) * int (p_size puz) \<le> 10 ^ k"
       "\<forall>j. int (p_size puz) * int (p_size puz) \<le> 10 ^ j \<longrightarrow> k \<le> j"
    and res: "cdok_solve puz solution (Some d) =
       Some (if rest = [] then 0 else 1, map_option (\<lambda>_. g) solution,
             Some (path_difficulty bs * 10 ^ k + count_empty puz))"
    by auto
  have path: "search_path puz (p_values puz) g bs"
    by (rule search_spec_paths) (simp add: assms(2))
  have forced: "path_difficulty bs = 0" if "\<forall>b\<in>set bs. b = 1"
    using that unfolding path_difficulty_def by (induction bs) simp_all
  show ?thesis
    using res k path forced
    by (intro exI [of _ "if rest = [] then 0 else 1"] exI [of _ "map_option (\<lambda>_. g) solution"]
        exI [of _ k])
       (simp add: count_empty_card path_difficulty_def)
qed

lemma example_empty: "count_empty example_puzzle = 2"
  by code_simp

theorem cdok_solve_difficulty_witness:
  "\<exists>g. search_spec example_puzzle (p_values example_puzzle) = [(g, [1, 1])]
      \<and> search_path example_puzzle (p_values example_puzzle) g [1, 1]
      \<and> (\<exists>ret sol'. cdok_solve example_puzzle None (Some 0) = Some (ret, sol', Some 2))"
proof -
  have sz: "p_size example_puzzle \<le> CDOK_SIZE"
    by (simp add: example_puzzle_def CDOK_SIZE_def)
  from example_paths obtain g where
    g: "search_spec example_puzzle (p_values example_puzzle) = (g, [1, 1]) # []"
    by (cases "search_spec example_puzzle (p_values example_puzzle)") auto
  from cdok_solve_difficulty [OF sz g, of None 0] obtain ret sol' where
    "search_path example_puzzle (p_values example_puzzle) g [1, 1]"
    "cdok_solve example_puzzle None (Some 0) =
       Some (ret, sol', Some (int (card {(x, y). x < p_size example_puzzle \<and> y < p_size example_puzzle
                                          \<and> p_values example_puzzle (CDOK_POS x y) = 0})))"
    by auto
  with g show ?thesis
    by (auto simp: count_empty_card [symmetric] example_empty)
qed

definition open_puzzle :: cdok_puzzle where
  "open_puzzle =
     \<lparr>p_size = 2, p_groups = (\<lambda>i. no_group), p_values = (\<lambda>c. 0),
      p_group_map = (\<lambda>c. 255)\<rparr>"

lemma open_paths:
  "map snd (search_spec open_puzzle (p_values open_puzzle)) = [[2, 1, 1, 1], [2, 1, 1, 1]]"
  by code_simp

text \<open>\<open>stuck_puzzle\<close> is \<^verbatim>\<open>A+5 A / 2 1\<close>: no two values of a grid of size 2 add up
  to 5, so the search finds nothing.\<close>

definition stuck_puzzle :: cdok_puzzle where
  "stuck_puzzle =
     \<lparr>p_size = 2,
      p_groups = (\<lambda>i. if i = 0
                       then \<lparr>g_type = CDOK_SUM, g_target = 5, g_size = 2,
                             g_members = (\<lambda>j. if j = 0 then 0 else 1)\<rparr>
                       else no_group),
      p_values = (\<lambda>c. if c = 16 then 2 else if c = 17 then 1 else 0),
      p_group_map = (\<lambda>c. if c < 2 then 0 else 255)\<rparr>"

lemma stuck_paths: "map snd (search_spec stuck_puzzle (p_values stuck_puzzle)) = []"
  by code_simp

lemma open_first:
  "map (fst (hd (search_spec open_puzzle (p_values open_puzzle)))) [0, 1, 16, 17] = [1, 2, 2, 1]"
  by code_simp

lemma open_empty: "count_empty open_puzzle = 4"
  by code_simp

text \<open>
  C10. For a puzzle of size at most \<open>CDOK_SIZE\<close>: when the search finds no solution,
  \<open>cdok_solve\<close> returns \<open>-1\<close> and what the solution and the difficulty parameters point to
  is as before the call. When the search finds two solutions or more, \<open>cdok_solve\<close>
  returns \<open>1\<close>, the solution buffer (if there is one) holds the first solution found,
  and the difficulty (if asked for) is the branch score of that first solution times
  the scale, plus the number of empty cells. \<open>cdok_solve\<close> always returns, \<open>-1\<close> only in the
  first case and \<open>1\<close> only in the second.
\<close>

theorem cdok_solve_outputs:
  assumes "p_size puz \<le> CDOK_SIZE"
  shows "(search_spec puz (p_values puz) = [] \<longrightarrow>
            cdok_solve puz solution diff = Some (- 1, solution, diff))
       \<and> (\<forall>g bs second rest.
            search_spec puz (p_values puz) = (g, bs) # second # rest \<longrightarrow>
            (\<exists>k. cdok_solve puz solution diff =
                   Some (1, map_option (\<lambda>_. g) solution,
                         map_option (\<lambda>_. (\<Sum>b\<leftarrow>bs. (b - 1) * (b - 1)) * 10 ^ k + count_empty puz) diff)
                \<and> int (p_size puz) * int (p_size puz) \<le> 10 ^ k
                \<and> (\<forall>j. int (p_size puz) * int (p_size puz) \<le> 10 ^ j \<longrightarrow> k \<le> j)))
       \<and> (\<exists>ret sol' diff'.
            cdok_solve puz solution diff = Some (ret, sol', diff')
          \<and> (ret = - 1 \<longleftrightarrow> search_spec puz (p_values puz) = [])
          \<and> (ret = 1 \<longleftrightarrow> 2 \<le> length (search_spec puz (p_values puz))))"
proof -
  let ?sols = "search_spec puz (p_values puz)"
  from cdok_solve_result [OF assms, of solution diff] obtain k where
    k: "int (p_size puz) * int (p_size puz) \<le> 10 ^ k"
       "\<forall>j. int (p_size puz) * int (p_size puz) \<le> 10 ^ j \<longrightarrow> k \<le> j"
    and res: "cdok_solve puz solution diff =
               Some (case ?sols of
                       [] \<Rightarrow> (- 1, solution, diff)
                     | (g, bs) # rest \<Rightarrow>
                         (if rest = [] then 0 else 1,
                          map_option (\<lambda>_. g) solution,
                          map_option (\<lambda>_. path_difficulty bs * 10 ^ k + count_empty puz) diff))"
    by blast
  have none: "?sols = [] \<longrightarrow> cdok_solve puz solution diff = Some (- 1, solution, diff)"
    using res by simp
  have two: "\<exists>k. cdok_solve puz solution diff =
                   Some (1, map_option (\<lambda>_. g) solution,
                         map_option (\<lambda>_. (\<Sum>b\<leftarrow>bs. (b - 1) * (b - 1)) * 10 ^ k + count_empty puz) diff)
                \<and> int (p_size puz) * int (p_size puz) \<le> 10 ^ k
                \<and> (\<forall>j. int (p_size puz) * int (p_size puz) \<le> 10 ^ j \<longrightarrow> k \<le> j)"
    if "?sols = (g, bs) # second # rest" for g bs second rest
    using res k that by (intro exI [of _ k]) (simp add: path_difficulty_def)
  have cls: "\<exists>ret sol' diff'.
            cdok_solve puz solution diff = Some (ret, sol', diff')
          \<and> (ret = - 1 \<longleftrightarrow> ?sols = [])
          \<and> (ret = 1 \<longleftrightarrow> 2 \<le> length ?sols)"
  proof (cases ?sols)
    case Nil
    with res show ?thesis by simp
  next
    case (Cons first rest)
    obtain g bs where "first = (g, bs)" by (cases first)
    with res Cons show ?thesis by (cases rest) simp_all
  qed
  from none two cls show ?thesis by blast
qed

text \<open>On \<open>stuck_puzzle\<close> the call returns \<open>-1\<close> and leaves the buffer (all 9) and the
  difficulty (7) alone; on \<open>open_puzzle\<close> it returns \<open>1\<close> with the first of the two Latin
  squares in the buffer and the difficulty \<open>1 * 10 + 4\<close>.\<close>

theorem cdok_solve_outputs_witness:
  "cdok_solve stuck_puzzle (Some (\<lambda>c. 9)) (Some 7) = Some (- 1, Some (\<lambda>c. 9), Some 7)
   \<and> (\<exists>g. cdok_solve open_puzzle (Some (\<lambda>c. 9)) (Some 7) = Some (1, Some g, Some 14)
          \<and> map g [0, 1, 16, 17] = [1, 2, 2, 1])"
proof -
  have s1: "search_spec stuck_puzzle (p_values stuck_puzzle) = []"
    using stuck_paths by simp
  have sz1: "p_size stuck_puzzle \<le> CDOK_SIZE"
    by (simp add: stuck_puzzle_def CDOK_SIZE_def)
  have a: "cdok_solve stuck_puzzle (Some (\<lambda>c. 9)) (Some 7) = Some (- 1, Some (\<lambda>c. 9), Some 7)"
    using cdok_solve_outputs [OF sz1, of "Some (\<lambda>c. 9)" "Some 7"] s1 by simp
  have sz2: "p_size open_puzzle \<le> CDOK_SIZE"
    by (simp add: open_puzzle_def CDOK_SIZE_def)
  from open_paths obtain g g2 where
    sp: "search_spec open_puzzle (p_values open_puzzle) = (g, [2, 1, 1, 1]) # (g2, [2, 1, 1, 1]) # []"
    by (cases "search_spec open_puzzle (p_values open_puzzle)";
        cases "tl (search_spec open_puzzle (p_values open_puzzle))") auto
  with open_first have g: "map g [0, 1, 16, 17] = [1, 2, 2, 1]" by simp
  from cdok_solve_outputs [OF sz2, of "Some (\<lambda>c. 9)" "Some 7"] sp obtain k where
    k: "cdok_solve open_puzzle (Some (\<lambda>c. 9)) (Some 7) =
          Some (1, Some g, Some (10 ^ k + count_empty open_puzzle))"
       "int (p_size open_puzzle) * int (p_size open_puzzle) \<le> 10 ^ k"
       "\<forall>j. int (p_size open_puzzle) * int (p_size open_puzzle) \<le> 10 ^ j \<longrightarrow> k \<le> j"
    by auto
  have "k \<le> 1" using k(3) by (simp add: open_puzzle_def)
  moreover have "k \<noteq> 0" using k(2) by (intro notI) (simp add: open_puzzle_def)
  ultimately have "k = 1" by simp
  with k(1) g a show ?thesis by (simp add: open_empty)
qed

section \<open>The generator: no free group, a size below 2\<close>

text \<open>
  A puzzle of size 16 in which all 52 groups are live, on the Latin square
  \<open>latin16\<close>: the groups 0 to 50 are pairs of cells side by side in the rows 0 to 6, the
  group 51 is the cells 112, 113, 114 of row 7, every group is a sum, and every other
  cell holds its value.
\<close>

definition latin16 :: "cdok_pos_t \<Rightarrow> nat" where
  "latin16 c = (CDOK_POS_X c + CDOK_POS_Y c) mod 16 + 1"

definition domino :: "cdok_pos_t \<Rightarrow> cdok_group" where
  "domino c = \<lparr>g_type = CDOK_SUM, g_target = int (latin16 c + latin16 (c + 1)), g_size = 2,
               g_members = (\<lambda>j. if j = 0 then c else c + 1)\<rparr>"

definition full_puzzle :: cdok_puzzle where
  "full_puzzle =
     \<lparr>p_size = 16,
      p_groups = (\<lambda>k. if k < 51 then domino (16 * (k div 8) + 2 * (k mod 8))
                       else if k = 51 then
                         \<lparr>g_type = CDOK_SUM, g_target = int (latin16 112 + latin16 113 + latin16 114),
                          g_size = 3, g_members = (\<lambda>j. if j < 3 then 112 + j else 0)\<rparr>
                       else no_group),
      p_values = (\<lambda>c. if c < 102 \<or> (112 \<le> c \<and> c < 115) then 0 else latin16 c),
      p_group_map = (\<lambda>c. if c < 102 then 8 * (c div 16) + (c mod 16) div 2
                          else if 112 \<le> c \<and> c < 115 then 51 else CDOK_GROUP_NONE)\<rparr>"

text \<open>A generator that returns 0 at every call.\<close>

definition zero_rng :: rng where
  "zero_rng = (\<lambda>n. 0)"

lemma group_alloc_none:
  "group_alloc puz = CDOK_GROUP_NONE \<longleftrightarrow> (\<forall>i<CDOK_GROUPS. g_size (p_groups puz i) \<noteq> 0)"
proof (cases "find (\<lambda>i. g_size (p_groups puz i) = 0) [0..<CDOK_GROUPS]")
  case None
  then have "\<forall>i<CDOK_GROUPS. g_size (p_groups puz i) \<noteq> 0"
    by (auto simp: find_None_iff)
  with None show ?thesis by (simp add: group_alloc_def)
next
  case (Some i)
  then have "i < CDOK_GROUPS" "g_size (p_groups puz i) = 0"
    by (auto simp: find_Some_iff)
  with Some show ?thesis
    by (auto simp: group_alloc_def CDOK_GROUPS_def CDOK_GROUP_NONE_def)
qed

lemma full_live: "\<forall>i<CDOK_GROUPS. g_size (p_groups full_puzzle i) \<noteq> 0"
  by (simp add: full_puzzle_def CDOK_GROUPS_def domino_def)

text \<open>
  C5, as stated, fails. In \<open>full_puzzle\<close> no group is free, the cell 115 is in no group
  and its neighbour 114 is in the group 51. \<open>mut_join_cells\<close> removes 114 from its group
  before it looks for a free group, so the cell comes back as a given (its value 10)
  and is in no group any more: the puzzle has changed.
\<close>

theorem join_occupied_counterexample:
  "group_alloc full_puzzle = CDOK_GROUP_NONE
   \<and> p_group_map full_puzzle 115 = CDOK_GROUP_NONE
   \<and> p_group_map full_puzzle 114 = 51
   \<and> mut_join_cells full_puzzle 114 115 latin16 0 zero_rng \<noteq> None
   \<and> p_group_map (fst (the (mut_join_cells full_puzzle 114 115 latin16 0 zero_rng))) 114
       = CDOK_GROUP_NONE
   \<and> p_values (fst (the (mut_join_cells full_puzzle 114 115 latin16 0 zero_rng))) 114 = 10
   \<and> p_values full_puzzle 114 = 0
   \<and> mut_join_cells full_puzzle 114 115 latin16 0 zero_rng \<noteq> Some (full_puzzle, zero_rng)"
proof -
  have alloc: "group_alloc full_puzzle = CDOK_GROUP_NONE"
    by (simp add: group_alloc_none full_live)
  have before: "p_group_map full_puzzle 115 = CDOK_GROUP_NONE" "p_group_map full_puzzle 114 = 51"
    "p_values full_puzzle 114 = 0"
    by (simp_all add: full_puzzle_def)
  have ev: "map_option (\<lambda>(p, r). (p_group_map p 114, p_values p 114))
              (mut_join_cells full_puzzle 114 115 latin16 0 zero_rng) = Some (255, 10)"
    by code_simp
  then obtain p r where res: "mut_join_cells full_puzzle 114 115 latin16 0 zero_rng = Some (p, r)"
    and p: "p_group_map p 114 = 255" "p_values p 114 = 10"
    by (cases "mut_join_cells full_puzzle 114 115 latin16 0 zero_rng") auto
  have "p \<noteq> full_puzzle" using p(1) before(2) by auto
  with alloc before res p show ?thesis by (simp add: CDOK_GROUP_NONE_def)
qed

text \<open>
  C5, amended. When all 52 groups are live and neither \<open>c\<close> nor \<open>n\<close> is in a group,
  \<open>mut_join_cells\<close> leaves the puzzle (and the random numbers) as they are.
\<close>

theorem join_no_free_slot:
  assumes "\<forall>i<CDOK_GROUPS. g_size (p_groups puz i) \<noteq> 0"
    and "p_group_map puz n = CDOK_GROUP_NONE"
    and "p_group_map puz c = CDOK_GROUP_NONE"
  shows "mut_join_cells puz c n solution f r = Some (puz, r)"
  using assms by (simp add: mut_join_cells_def group_alloc_none)

theorem join_no_free_slot_witness:
  "mut_join_cells full_puzzle 115 116 latin16 0 zero_rng = Some (full_puzzle, zero_rng)"
  using join_no_free_slot [of full_puzzle 116 115 latin16 0 zero_rng] full_live
  by (simp add: full_puzzle_def CDOK_GROUP_NONE_def)

text \<open>
  C9. For a size below 2 \<open>cdok_generate\<close> returns 0 and the puzzle its parameter points
  to is the one that was passed in.
\<close>

theorem generate_small_size:
  assumes "sz < 2"
  shows "cdok_generate puz solution sz fl iterations limit target r = Some (0, puz, r)"
  using assms by (simp add: cdok_generate_def)

theorem generate_small_size_witness:
  "cdok_generate full_puzzle latin16 1 0 20 0 0 zero_rng = Some (0, full_puzzle, zero_rng)"
  using generate_small_size [of 1 full_puzzle latin16 0 20 0 0 zero_rng] by simp

end
